theory Spec2Isabelle
  imports Main "HOL-Library.Word" "HOL-Library.Multiset"
begin

section \<open>graph-ts conversion utilities (conversion.ts)\<close>

text \<open>
  A \<open>Uint8Array\<close> is a list of 8-bit words. A JavaScript string is a list of
  characters; the model covers code units below 256, which is all that
  \<open>bytesToHex\<close> ever produces. A thrown exception is the left summand of the result.
\<close>

type_synonym byte = "8 word"

text \<open>What JavaScript code throws: a \<open>TypeError\<close> of the runtime (a property read on
  \<open>undefined\<close> or \<open>null\<close>), an \<open>Error\<close> built by the code with its message, an
  exception raised inside a library or user function that the code calls, or the
  \<open>E_CANCELED\<close> value with which a cancelled mutex rejects its waiters.\<close>

datatype js_error = TypeError | Error string | ExternalError string | E_CANCELED

text \<open>\<open>Number.prototype.toString(16)\<close> on a non-negative integer: lower-case digits,
  no leading zero, \<open>"0"\<close> for zero.\<close>

definition hexDigit :: "nat \<Rightarrow> char" where
  "hexDigit n = ''0123456789abcdef'' ! n"

fun toString16 :: "nat \<Rightarrow> string" where
  "toString16 n = (if n < 16 then [hexDigit n] else toString16 (n div 16) @ [hexDigit (n mod 16)])"

declare toString16.simps [simp del]

text \<open>\<open>String.prototype.padStart(n, c)\<close> with a one-character filler.\<close>

definition padStart :: "nat \<Rightarrow> char \<Rightarrow> string \<Rightarrow> string" where
  "padStart n c s = replicate (n - length s) c @ s"

text \<open>\<open>'0x' + bytes.reduce((str, byte) => str + byte.toString(16).padStart(2, '0'), '')\<close>\<close>

definition bytesToHex :: "byte list \<Rightarrow> string" where
  "bytesToHex bytes =
     ''0x'' @ foldl (\<lambda>str byte. str @ padStart 2 (CHR ''0'') (toString16 (unat byte))) [] bytes"

text \<open>The regular expression \<open>/.{1,2}/g\<close>: \<open>.\<close> matches every character except a line
  terminator, the quantifier is greedy, and the global flag collects the successive
  matches from left to right. \<open>String.prototype.match\<close> returns \<open>null\<close> when nothing
  matches.\<close>

definition isLineTerminator :: "char \<Rightarrow> bool" where
  "isLineTerminator c = (c = CHR 0x0A \<or> c = CHR 0x0D)"

fun regexChunks :: "string \<Rightarrow> string list" where
  "regexChunks [] = []"
| "regexChunks [c] = (if isLineTerminator c then [] else [[c]])"
| "regexChunks (c # d # cs) =
     (if isLineTerminator c then regexChunks (d # cs)
      else if isLineTerminator d then [c] # regexChunks cs
      else [c, d] # regexChunks cs)"

definition matchDot12 :: "string \<Rightarrow> string list option" where
  "matchDot12 s = (case regexChunks s of [] \<Rightarrow> None | m # ms \<Rightarrow> Some (m # ms))"

text \<open>\<open>parseInt(s, 16)\<close>: skip leading white space, read an optional sign, skip an
  optional \<open>0x\<close> or \<open>0X\<close>, read the longest run of hexadecimal digits; \<open>NaN\<close>
  (here \<open>None\<close>) when that run is empty.\<close>

definition isWhiteSpace :: "char \<Rightarrow> bool" where
  "isWhiteSpace c = (c \<in> {CHR 0x09, CHR 0x0A, CHR 0x0B, CHR 0x0C, CHR 0x0D, CHR 0x20, CHR 0xA0})"

definition digitValue :: "char \<Rightarrow> nat option" where
  "digitValue c =
     (let n = (of_char c :: nat) in
      if 48 \<le> n \<and> n \<le> 57 then Some (n - 48)
      else if 97 \<le> n \<and> n \<le> 102 then Some (n - 87)
      else if 65 \<le> n \<and> n \<le> 70 then Some (n - 55)
      else None)"

definition parseInt16 :: "string \<Rightarrow> int option" where
  "parseInt16 s =
     (let s1 = dropWhile isWhiteSpace s;
          sgn1 = (case s1 of c # r \<Rightarrow> if c = CHR ''-'' then (-1 :: int) else 1 | [] \<Rightarrow> 1);
          s2 = (case s1 of c # r \<Rightarrow> if c = CHR ''-'' \<or> c = CHR ''+'' then r else s1 | [] \<Rightarrow> []);
          s3 = (if take 2 s2 = ''0x'' \<or> take 2 s2 = ''0X'' then drop 2 s2 else s2);
          ds = takeWhile (\<lambda>c. digitValue c \<noteq> None) s3
      in if ds = [] then None
         else Some (sgn1 * int (foldl (\<lambda>a c. 16 * a + the (digitValue c)) 0 ds)))"

text \<open>\<open>Uint8Array.from\<close> stores each number modulo 256, and \<open>NaN\<close> as 0.\<close>

definition toUint8 :: "int option \<Rightarrow> byte" where
  "toUint8 v = (case v of None \<Rightarrow> 0 | Some i \<Rightarrow> word_of_int i)"

text \<open>
  \<^verbatim>\<open>if (hexString.startsWith('0x')) hexString = hexString.slice(2)\<close>
  \<^verbatim>\<open>return Uint8Array.from(hexString.match(/.{1,2}/g).map((byte) => parseInt(byte, 16)))\<close>
  Calling \<open>map\<close> on \<open>null\<close> throws a \<open>TypeError\<close>.
\<close>

definition hexToBytes :: "string \<Rightarrow> js_error + byte list" where
  "hexToBytes hexString =
     (let h = (if take 2 hexString = ''0x'' then drop 2 hexString else hexString) in
      case matchDot12 h of
        None \<Rightarrow> Inl TypeError
      | Some ms \<Rightarrow> Inr (map (\<lambda>byte. toUint8 (parseInt16 byte)) ms))"

text \<open>The two hexadecimal digits of a byte, high nibble first: the shape that the
  proofs below show \<open>bytesToHex\<close> to emit for each byte.\<close>

definition hexPair :: "byte \<Rightarrow> string" where
  "hexPair b = [hexDigit (unat b div 16), hexDigit (unat b mod 16)]"

subsection \<open>Round trip of the hexadecimal conversion\<close>

lemma nibble_cases:
  "k < 16 \<Longrightarrow> k \<in> {0, 1, 2, 3, 4, 5, 6, 7, 8, 9, 10, 11, 12, 13, 14, 15 :: nat}"
  unfolding insert_iff empty_iff by arith

lemma hexDigit_val: "n < 16 \<Longrightarrow> digitValue (hexDigit n) = Some n"
  by (drule nibble_cases) (auto simp: hexDigit_def digitValue_def)

lemma hexDigit_props:
  "n < 16 \<Longrightarrow>
     \<not> isWhiteSpace (hexDigit n) \<and> \<not> isLineTerminator (hexDigit n)
     \<and> hexDigit n \<noteq> CHR ''-'' \<and> hexDigit n \<noteq> CHR ''+''
     \<and> hexDigit n \<noteq> CHR ''x'' \<and> hexDigit n \<noteq> CHR ''X''"
  by (drule nibble_cases) (auto simp: hexDigit_def isWhiteSpace_def isLineTerminator_def)

lemma unat_byte_div16: "unat (b :: byte) div 16 < 16"
proof -
  have "unat b < 256" using unsigned_less [of b] by simp
  then show ?thesis by simp
qed

lemma padStart_toString16: "padStart 2 (CHR ''0'') (toString16 (unat (b :: byte))) = hexPair b"
proof (cases "unat b < 16")
  case True
  then show ?thesis
    by (simp add: toString16.simps [of "unat b"] padStart_def hexPair_def hexDigit_def)
next
  case False
  have "toString16 (unat b div 16) = [hexDigit (unat b div 16)]"
    using unat_byte_div16 [of b] by (simp add: toString16.simps [of "unat b div 16"])
  with False show ?thesis
    by (simp add: toString16.simps [of "unat b"] padStart_def hexPair_def)
qed

lemma foldl_hexPair:
  "foldl (\<lambda>str byte. str @ padStart 2 (CHR ''0'') (toString16 (unat (byte :: byte)))) acc bs
     = acc @ concat (map hexPair bs)"
  by (induction bs arbitrary: acc) (simp_all add: padStart_toString16)

lemma bytesToHex_hexPair: "bytesToHex bs = ''0x'' @ concat (map hexPair bs)"
  by (simp add: bytesToHex_def foldl_hexPair)

lemma regexChunks_hexPair: "regexChunks (concat (map hexPair bs)) = map hexPair bs"
proof (induction bs)
  case Nil
  show ?case by simp
next
  case (Cons b bs)
  have "\<not> isLineTerminator (hexDigit (unat b div 16))"
    using hexDigit_props [OF unat_byte_div16 [of b]] by simp
  moreover have "\<not> isLineTerminator (hexDigit (unat b mod 16))"
    using hexDigit_props [of "unat b mod 16"] by simp
  ultimately show ?case using Cons.IH by (simp add: hexPair_def)
qed

lemma parseInt16_hexPair: "parseInt16 (hexPair b) = Some (int (unat b))"
proof -
  let ?h = "unat b div 16" and ?l = "unat b mod 16"
  have h: "?h < 16" by (rule unat_byte_div16)
  have l: "?l < 16" by simp
  note ph = hexDigit_props [OF h] and pl = hexDigit_props [OF l]
  have dw: "dropWhile isWhiteSpace (hexPair b) = hexPair b"
    using ph by (simp add: hexPair_def)
  have tw: "takeWhile (\<lambda>c. digitValue c \<noteq> None) (hexPair b) = hexPair b"
    by (simp add: hexPair_def hexDigit_val [OF h] hexDigit_val [OF l])
  have "parseInt16 (hexPair b) = Some (int (16 * ?h + ?l))"
    unfolding parseInt16_def dw
    using ph pl tw
    by (simp add: hexPair_def Let_def hexDigit_val [OF h] hexDigit_val [OF l])
  then show ?thesis by simp
qed

lemma toUint8_parseInt16_hexPair: "toUint8 (parseInt16 (hexPair b)) = b"
  by (simp add: parseInt16_hexPair toUint8_def)

text \<open>
  Claim C10. \<open>hexToBytes\<close> is a left inverse of \<open>bytesToHex\<close> on every non-empty
  byte array: the two hexadecimal digits written for each byte are read back as that
  byte. On the empty array \<open>bytesToHex\<close> gives \<open>"0x"\<close>, the regular expression
  matches nothing, and \<open>hexToBytes\<close> throws instead of returning a value.
\<close>

theorem hexToBytes_bytesToHex:
  "(b \<noteq> [] \<longrightarrow> hexToBytes (bytesToHex b) = Inr b)
   \<and> hexToBytes (bytesToHex []) = Inl TypeError"
proof
  show "b \<noteq> [] \<longrightarrow> hexToBytes (bytesToHex b) = Inr b"
  proof
    assume "b \<noteq> []"
    then obtain x xs where b: "b = x # xs" by (cases b) auto
    have "matchDot12 (concat (map hexPair b)) = Some (map hexPair b)"
      unfolding matchDot12_def regexChunks_hexPair by (simp add: b)
    then show "hexToBytes (bytesToHex b) = Inr b"
      by (simp add: hexToBytes_def bytesToHex_hexPair toUint8_parseInt16_hexPair map_idI)
  qed
  show "hexToBytes (bytesToHex []) = Inl TypeError"
    by (simp add: hexToBytes_def bytesToHex_def matchDot12_def)
qed

theorem hexToBytes_bytesToHex_witness:
  "[0x00, 0x0f, 0xab, 0xff] \<noteq> ([] :: byte list)
   \<and> bytesToHex [0x00, 0x0f, 0xab, 0xff] = ''0x000fabff''
   \<and> hexToBytes ''0x000fabff'' = Inr [0x00, 0x0f, 0xab, 0xff]"
proof -
  have e: "bytesToHex [0x00, 0x0f, 0xab, 0xff] = ''0x000fabff''"
    by (simp add: bytesToHex_def padStart_def toString16.simps hexDigit_def)
  show ?thesis
    using hexToBytes_bytesToHex [of "[0x00, 0x0f, 0xab, 0xff]"] unfolding e by (simp add: e)
qed

section \<open>Decode worker pool (workerPool.ts)\<close>

text \<open>
  The pool holds \<open>workers.length = cpus().length\<close> workers; that number is the parameter
  \<open>workerCount\<close>. \<^verbatim>\<open>Math.ceil(chunk.length / workers.length)\<close> is the ceiling of the
  quotient. With no worker at all JavaScript computes \<open>Infinity\<close> or \<open>NaN\<close> here, and
  \<open>Array.from({ length: 0 }, ...)\<close> never reads it: \<open>workerChunks\<close> below is the empty
  list in that case whatever \<open>chunkSize\<close> is.
\<close>

definition chunkSize :: "nat \<Rightarrow> nat \<Rightarrow> nat" where
  "chunkSize K workerCount = (K + workerCount - 1) div workerCount"

text \<open>\<open>Array.prototype.slice(a, b)\<close> for indices \<open>0 \<le> a \<le> b\<close>: the elements from
  \<open>a\<close> up to, not including, \<open>b\<close>, clamped to the array.\<close>

definition arraySlice :: "'a list \<Rightarrow> nat \<Rightarrow> nat \<Rightarrow> 'a list" where
  "arraySlice xs a b = take (b - a) (drop a xs)"

text \<open>
  \<^verbatim>\<open>Array.from({ length: workers.length }, (_, i) =>\<close>
  \<^verbatim>\<open>  chunk.slice(i * chunkSize, (i + 1) * chunkSize)).filter((c) => c.length > 0)\<close>
\<close>

definition workerChunks :: "nat \<Rightarrow> 'a list \<Rightarrow> 'a list list" where
  "workerChunks workerCount chunk =
     (let sz = chunkSize (length chunk) workerCount in
      filter (\<lambda>c. length c > 0)
        (map (\<lambda>i. arraySlice chunk (i * sz) ((i + 1) * sz)) [0..<workerCount]))"

text \<open>\<open>Promise.all\<close>: the list of results in the order of the promises, or a rejection
  when one of them rejects. Which rejection wins depends on timing; the model takes the
  first in list order, and nothing below depends on the choice.\<close>

fun promiseAll :: "('e + 'a) list \<Rightarrow> 'e + 'a list" where
  "promiseAll [] = Inr []"
| "promiseAll (Inl e # ps) = Inl e"
| "promiseAll (Inr v # ps) = (case promiseAll ps of Inl e \<Rightarrow> Inl e | Inr vs \<Rightarrow> Inr (v # vs))"

text \<open>\<open>execute\<close> posts sub-chunk \<open>i\<close> to worker \<open>i\<close> and flattens the results. All
  workers run the same script, the parameter \<open>worker\<close>; a worker that throws rejects its
  promise.\<close>

definition execute ::
  "nat \<Rightarrow> ('r list \<Rightarrow> 's \<Rightarrow> 'e + 'ev list) \<Rightarrow> 'r list \<Rightarrow> 's \<Rightarrow> 'e + 'ev list" where
  "execute workerCount worker chunk sources =
     (case promiseAll (map (\<lambda>workerChunk. worker workerChunk sources) (workerChunks workerCount chunk)) of
        Inl e \<Rightarrow> Inl e
      | Inr results \<Rightarrow> Inr (concat results))"

text \<open>The number of non-empty sub-chunks, used in the proofs.\<close>

definition chunkCount :: "nat \<Rightarrow> nat \<Rightarrow> nat" where
  "chunkCount K sz = (if sz = 0 then 0 else (K + sz - 1) div sz)"

subsection \<open>Splitting and concatenation\<close>

lemma chunkSize_ceil:
  assumes "0 < w"
  shows "k \<le> w * chunkSize k w" and "0 < k \<Longrightarrow> w * (chunkSize k w - 1) < k"
    and "chunkSize k w = 0 \<longleftrightarrow> k = 0"
proof -
  let ?s = "chunkSize k w"
  have d: "(k + w - 1) = w * ?s + (k + w - 1) mod w"
    unfolding chunkSize_def by simp
  have m: "(k + w - 1) mod w < w" using assms by simp
  show "k \<le> w * ?s" using d m by linarith
  show z: "?s = 0 \<longleftrightarrow> k = 0"
    using assms unfolding chunkSize_def by (auto simp: div_eq_0_iff)
  show "w * (?s - 1) < k" if "0 < k"
  proof -
    from that z have "0 < ?s" by simp
    then have "w * (?s - 1) = w * ?s - w" by (simp add: right_diff_distrib')
    also have "\<dots> \<le> k + w - 1 - w" using d by linarith
    also have "\<dots> < k" using that assms by simp
    finally show ?thesis .
  qed
qed

lemma concat_slices:
  "concat (map (\<lambda>i. arraySlice xs (i * sz) ((i + 1) * sz)) [0..<n]) = take (n * sz) xs"
proof (induction n)
  case 0
  show ?case by simp
next
  case (Suc n)
  have "take (n * sz) xs @ take sz (drop (n * sz) xs) = take (n * sz + sz) xs"
    by (simp add: take_add)
  with Suc show ?case by (simp add: arraySlice_def add.commute)
qed

lemma filter_map_prefix:
  assumes "n \<le> w" and "\<And>i. i < n \<Longrightarrow> P (f i)" and "\<And>i. n \<le> i \<Longrightarrow> i < w \<Longrightarrow> \<not> P (f i)"
  shows "filter P (map f [0..<w]) = map f [0..<n]"
proof -
  have "[0..<w] = [0..<n] @ [n..<w]" using assms(1) by (metis le_add_diff_inverse upt_add_eq_append zero_le)
  moreover have "filter P (map f [0..<n]) = map f [0..<n]" using assms(2) by (simp add: filter_id_conv)
  moreover have "filter P (map f [n..<w]) = []" using assms(3) by (simp add: filter_empty_conv)
  ultimately show ?thesis by simp
qed

lemma workerChunks_eq:
  assumes "0 < w"
  shows "workerChunks w xs =
     map (\<lambda>i. arraySlice xs (i * chunkSize (length xs) w) ((i + 1) * chunkSize (length xs) w))
       [0..<chunkCount (length xs) (chunkSize (length xs) w)]"
    and "chunkCount (length xs) (chunkSize (length xs) w) \<le> w"
    and "length xs \<le> chunkCount (length xs) (chunkSize (length xs) w) * chunkSize (length xs) w"
proof -
  let ?k = "length xs"
  let ?s = "chunkSize ?k w"
  let ?n = "chunkCount ?k ?s"
  let ?f = "\<lambda>i. arraySlice xs (i * ?s) ((i + 1) * ?s)"
  have len: "length (?f i) = min ?s (?k - i * ?s)" for i by (simp add: arraySlice_def)
  show nw: "?n \<le> w"
  proof (cases "?s = 0")
    case True then show ?thesis by (simp add: chunkCount_def)
  next
    case False
    have "?k + ?s - 1 < w * ?s + ?s" using chunkSize_ceil(1) [OF assms, of ?k] False by linarith
    then have "?k + ?s - 1 < (w + 1) * ?s" by (simp add: algebra_simps)
    then have "(?k + ?s - 1) div ?s < w + 1" using False by (simp add: less_mult_imp_div_less)
    then show ?thesis using False by (simp add: chunkCount_def)
  qed
  have pos: "0 < length (?f i)" if "i < ?n" for i
  proof -
    from that have s: "?s \<noteq> 0" by (auto simp: chunkCount_def split: if_splits)
    from that s have "i < (?k + ?s - 1) div ?s" by (simp add: chunkCount_def)
    then have "i + 1 \<le> (?k + ?s - 1) div ?s" by simp
    then have "(i + 1) * ?s \<le> ?k + ?s - 1" using s by (simp add: less_eq_div_iff_mult_less_eq)
    then have "i * ?s < ?k" using s by (simp add: algebra_simps)
    then show ?thesis unfolding len using s by simp
  qed
  have emp: "\<not> 0 < length (?f i)" if "?n \<le> i" for i
  proof (cases "?s = 0")
    case True then show ?thesis unfolding len by simp
  next
    case False
    with that have "(?k + ?s - 1) div ?s \<le> i" by (simp add: chunkCount_def)
    then have "(?k + ?s - 1) div ?s < i + 1" by simp
    then have "?k + ?s - 1 < (i + 1) * ?s" using False by (simp add: div_less_iff_less_mult)
    then have "?k \<le> i * ?s" using False by (simp add: algebra_simps)
    then show ?thesis unfolding len by simp
  qed
  show "workerChunks w xs = map ?f [0..<?n]"
    unfolding workerChunks_def Let_def
    by (rule filter_map_prefix [OF nw]) (use pos emp in auto)
  show "?k \<le> ?n * ?s"
  proof (cases "?s = 0")
    case True then show ?thesis using chunkSize_ceil(3) [OF assms, of ?k] by simp
  next
    case False
    have "?k + ?s - 1 = ?s * ((?k + ?s - 1) div ?s) + (?k + ?s - 1) mod ?s" by simp
    moreover have "(?k + ?s - 1) mod ?s < ?s" using False by simp
    ultimately have "?k \<le> ?s * ((?k + ?s - 1) div ?s)" by linarith
    then show ?thesis using False by (simp add: chunkCount_def mult.commute)
  qed
qed

lemma promiseAll_Inr:
  "(\<And>x. x \<in> set xs \<Longrightarrow> g x = Inr (f x)) \<Longrightarrow> promiseAll (map g xs) = Inr (map f xs)"
  by (induction xs) simp_all

lemma promiseAll_Inl:
  "\<exists>x \<in> set ps. isl x \<Longrightarrow> isl (promiseAll ps)"
  by (induction ps rule: promiseAll.induct) (auto split: sum.splits)

text \<open>
  Claim C6. With at least one worker, \<open>execute\<close> splits a batch of \<open>K\<close> raw events into
  at most \<open>coreCount\<close> sub-chunks; sub-chunk \<open>i\<close> is the contiguous slice starting at
  \<open>i * ceil(K / coreCount)\<close>, none is empty, each but the last has exactly
  \<open>ceil(K / coreCount)\<close> elements and the last at most that many; the sub-chunks
  concatenated give the batch back in order; and when every worker resolves, the result is
  the workers' results concatenated in sub-chunk order.
\<close>

theorem execute_chunks:
  assumes "0 < coreCount"
  shows "let cs = workerChunks coreCount chunk; sz = chunkSize (length chunk) coreCount in
           length chunk \<le> coreCount * sz
         \<and> (chunk \<noteq> [] \<longrightarrow> coreCount * (sz - 1) < length chunk)
         \<and> length cs \<le> coreCount
         \<and> (\<forall>i < length cs.
                cs ! i = arraySlice chunk (i * sz) ((i + 1) * sz)
              \<and> cs ! i \<noteq> []
              \<and> length (cs ! i) \<le> sz
              \<and> (i + 1 < length cs \<longrightarrow> length (cs ! i) = sz))
         \<and> concat cs = chunk
         \<and> ((\<forall>c \<in> set cs. worker c sources = Inr (f c)) \<longrightarrow>
                execute coreCount worker chunk sources = Inr (concat (map f cs)))"
proof -
  let ?k = "length chunk"
  let ?s = "chunkSize ?k coreCount"
  let ?n = "chunkCount ?k ?s"
  let ?g = "\<lambda>i. arraySlice chunk (i * ?s) ((i + 1) * ?s)"
  let ?cs = "workerChunks coreCount chunk"
  note eq = workerChunks_eq [OF assms, of chunk]
  have cs: "?cs = map ?g [0..<?n]" by (rule eq(1))
  have n: "length ?cs = ?n" by (simp add: cs)
  have nth: "?cs ! i = ?g i" if "i < ?n" for i using that by (simp add: cs)
  have lenf: "length (?g i) = min ?s (?k - i * ?s)" for i by (simp add: arraySlice_def)
  have ne: "c \<noteq> []" if "c \<in> set ?cs" for c
    using that by (auto simp: workerChunks_def Let_def)
  have a: "?k \<le> coreCount * ?s" by (rule chunkSize_ceil(1) [OF assms])
  have b: "chunk \<noteq> [] \<longrightarrow> coreCount * (?s - 1) < ?k"
    using chunkSize_ceil(2) [OF assms, of ?k] by simp
  have c: "length ?cs \<le> coreCount" using eq(2) n by simp
  have d: "?cs ! i = ?g i \<and> ?cs ! i \<noteq> [] \<and> length (?cs ! i) \<le> ?s
            \<and> (i + 1 < length ?cs \<longrightarrow> length (?cs ! i) = ?s)" if i: "i < length ?cs" for i
  proof (intro conjI impI)
    from i have i': "i < ?n" by (simp add: n)
    show "?cs ! i = ?g i" by (rule nth [OF i'])
    show "?cs ! i \<noteq> []" using i by (intro ne nth_mem)
    show "length (?cs ! i) \<le> ?s" unfolding nth [OF i'] lenf by simp
    assume j: "i + 1 < length ?cs"
    then have "?cs ! (i + 1) \<noteq> []" by (intro ne nth_mem)
    moreover from j have "?cs ! (i + 1) = ?g (i + 1)" by (intro nth) (simp add: n)
    ultimately have "0 < length (?g (i + 1))" by simp
    then have "(i + 1) * ?s < ?k" unfolding lenf by simp
    then have "?s \<le> ?k - i * ?s" by (simp add: algebra_simps)
    then show "length (?cs ! i) = ?s" unfolding nth [OF i'] lenf by simp
  qed
  have e: "concat ?cs = chunk"
    unfolding cs concat_slices using eq(3) by simp
  have f: "execute coreCount worker chunk sources = Inr (concat (map f ?cs))"
    if "\<forall>c \<in> set ?cs. worker c sources = Inr (f c)"
  proof -
    have "promiseAll (map (\<lambda>c. worker c sources) ?cs) = Inr (map f ?cs)"
      using that by (intro promiseAll_Inr) simp
    then show ?thesis by (simp add: execute_def)
  qed
  show ?thesis unfolding Let_def using a b c d e f by blast
qed

theorem execute_chunks_witness:
  "(0 :: nat) < 4
   \<and> chunkSize 10 4 = 3
   \<and> workerChunks 4 [1, 2, 3, 4, 5, 6, 7, 8, 9, 10 :: nat] = [[1, 2, 3], [4, 5, 6], [7, 8, 9], [10]]
   \<and> workerChunks 4 [1, 2, 3, 4, 5 :: nat] = [[1, 2], [3, 4], [5]]
   \<and> execute 4 (\<lambda>c (s :: unit). (Inr (map Suc c) :: js_error + nat list))
        [1, 2, 3, 4, 5, 6, 7, 8, 9, 10] () = Inr [2, 3, 4, 5, 6, 7, 8, 9, 10, 11]"
proof -
  have w: "workerChunks 4 [1, 2, 3, 4, 5, 6, 7, 8, 9, 10 :: nat] = [[1, 2, 3], [4, 5, 6], [7, 8, 9], [10]]"
    by code_simp
  have w': "workerChunks 4 [1, 2, 3, 4, 5 :: nat] = [[1, 2], [3, 4], [5]]"
    by code_simp
  have h: "(0 :: nat) < 4" by simp
  note t = execute_chunks [OF h, of "[1, 2, 3, 4, 5, 6, 7, 8, 9, 10]"
      "\<lambda>c s. Inr (map Suc c)" "()" "map Suc", unfolded Let_def]
  note last = t [THEN conjunct2, THEN conjunct2, THEN conjunct2, THEN conjunct2, THEN conjunct2]
  have "execute 4 (\<lambda>c (s :: unit). (Inr (map Suc c) :: js_error + nat list))
        [1, 2, 3, 4, 5, 6, 7, 8, 9, 10] () = Inr (concat (map (map Suc) (workerChunks 4 [1, 2, 3, 4, 5, 6, 7, 8, 9, 10])))"
    by (rule last [THEN mp]) simp
  moreover have "chunkSize 10 4 = 3" by code_simp
  ultimately show ?thesis unfolding w using w' by simp
qed

text \<open>With no worker there is no sub-chunk, and every batch decodes to nothing.\<close>

lemma execute_no_workers: "execute 0 worker chunk sources = Inr []"
  by (simp add: execute_def workerChunks_def)

section \<open>Event decoder worker (eventDecoderWorker)\<close>

text \<open>
  The types \<open>RawEvent\<close>, \<open>Event\<close> and \<open>Source\<close> are declared in files that are not part
  of the sources at hand; the records below hold the fields that the decoder reads and
  writes. An optional field is an \<open>option\<close>. A source is a block source or a contract
  source whose filter is a log filter or a call-trace filter, with its two selector
  tables. The functions of the \<open>viem\<close> library are parameters, collected in a record:
  each returns its value or throws.
\<close>

type_synonym hex = string

record block =
  blockHash :: hex
  blockNumber :: int
  blockTimestamp :: int

record rawLog =
  topics :: "hex list"
  logData :: hex

record trace =
  traceInput :: hex
  traceOutput :: hex

record rawEvent =
  chainId :: nat
  sourceIndex :: nat
  checkpoint :: string
  block :: block
  log :: "rawLog option"
  trace :: "trace option"
  transaction :: "hex option"
  transactionReceipt :: "hex option"

record abiParam =
  paramName :: "string option"
  paramIndexed :: bool
  paramType :: string

record abiItem =
  inputs :: "abiParam list option"

type_synonym abiValue = string

datatype argKey = NameKey string | IndexKey nat

datatype args = ArgsArray "abiValue option list" | ArgsObject "(argKey \<times> abiValue option) list"

record viem =
  decodeAbiParameters :: "abiParam list \<Rightarrow> hex \<Rightarrow> js_error + abiValue list"
  decodeFunctionData :: "abiItem \<Rightarrow> hex \<Rightarrow> js_error + (abiValue list \<times> string)"
  decodeFunctionResult :: "abiItem \<Rightarrow> hex \<Rightarrow> string \<Rightarrow> js_error + abiValue"

datatype filterType = LogFilter | CallTraceFilter

datatype source =
  BlockSource string
| ContractSource string filterType "hex \<rightharpoonup> (string \<times> abiItem)" "hex \<rightharpoonup> (string \<times> abiItem)"

datatype eventPayload =
  BlockPayload block
| LogPayload string "args option" rawLog block "hex option" "hex option"
| CallTracePayload "abiValue list" abiValue trace block "hex option" "hex option"

datatype eventType = BlockType | LogType | CallTraceType

record event =
  eventType :: eventType
  eventChainId :: nat
  eventCheckpoint :: string
  eventName :: string
  eventPayload :: eventPayload

text \<open>The test of \<open>decodeTopic\<close> for an array type: the type ends in an opening
  bracket, digits or nothing, and a closing bracket, after a prefix without line
  terminator.\<close>

definition isDigit :: "char \<Rightarrow> bool" where
  "isDigit c = (48 \<le> (of_char c :: nat) \<and> (of_char c :: nat) \<le> 57)"

definition isArrayType :: "string \<Rightarrow> bool" where
  "isArrayType ty =
     (case rev ty of
        [] \<Rightarrow> False
      | c # r \<Rightarrow> c = CHR '']'' \<and>
          (case dropWhile isDigit r of
             [] \<Rightarrow> False
           | d # p \<Rightarrow> d = CHR ''['' \<and> (\<forall>x \<in> set p. x \<noteq> CHR 0x0A \<and> x \<noteq> CHR 0x0D)))"

definition decodeTopic :: "viem \<Rightarrow> abiParam \<Rightarrow> hex \<Rightarrow> js_error + abiValue option" where
  "decodeTopic v param val =
     (if paramType param = ''string'' \<or> paramType param = ''bytes''
         \<or> paramType param = ''tuple'' \<or> isArrayType (paramType param)
      then Inr (Some val)
      else case decodeAbiParameters v [param] val of
             Inl e \<Rightarrow> Inl e
           | Inr decodedArg \<Rightarrow> Inr (case decodedArg of [] \<Rightarrow> None | a # _ \<Rightarrow> Some a))"

definition isNamed :: "abiParam \<Rightarrow> bool" where
  "isNamed x = (case paramName x of None \<Rightarrow> False | Some n \<Rightarrow> n \<noteq> [])"

definition setKey :: "argKey \<Rightarrow> 'v \<Rightarrow> (argKey \<times> 'v) list \<Rightarrow> (argKey \<times> 'v) list" where
  "setKey k v kvs = (if k \<in> fst ` set kvs then map (\<lambda>(k', v'). if k' = k then (k', v) else (k', v')) kvs else kvs @ [(k, v)])"

definition paramKey :: "abiParam \<Rightarrow> nat \<Rightarrow> argKey" where
  "paramKey param i = (case paramName param of None \<Rightarrow> IndexKey i | Some n \<Rightarrow> if n = [] then IndexKey i else NameKey n)"

definition nameKey :: "abiParam \<Rightarrow> argKey" where
  "nameKey param = (case paramName param of None \<Rightarrow> NameKey ''undefined'' | Some n \<Rightarrow> NameKey n)"

fun decodeIndexed ::
  "viem \<Rightarrow> bool \<Rightarrow> abiParam list \<Rightarrow> hex list \<Rightarrow> nat \<Rightarrow> args \<Rightarrow> js_error + args" where
  "decodeIndexed v isUnnamed [] argTopics i a = Inr a"
| "decodeIndexed v isUnnamed (param # ps) argTopics i a =
     (if i < length argTopics \<and> argTopics ! i \<noteq> [] then
        (case decodeTopic v param (argTopics ! i) of
           Inl e \<Rightarrow> Inl e
         | Inr x \<Rightarrow>
             decodeIndexed v isUnnamed ps argTopics (i + 1)
               (case a of
                  ArgsArray xs \<Rightarrow> ArgsArray (xs @ [x])
                | ArgsObject kvs \<Rightarrow> ArgsObject (setKey (paramKey param i) x kvs)))
      else Inl (Error ''Missing topic''))"

definition nthOpt :: "'a list \<Rightarrow> nat \<Rightarrow> 'a option" where
  "nthOpt xs i = (if i < length xs then Some (xs ! i) else None)"

definition argCount :: "args \<Rightarrow> nat" where
  "argCount a = (case a of ArgsArray xs \<Rightarrow> length xs | ArgsObject kvs \<Rightarrow> length kvs)"

definition decodeEventLog :: "viem \<Rightarrow> abiItem \<Rightarrow> hex list \<Rightarrow> hex \<Rightarrow> js_error + args option" where
  "decodeEventLog v item tps dat =
     (case inputs item of
        None \<Rightarrow> Inl TypeError
      | Some ins \<Rightarrow>
          (let isUnnamed = (\<exists>x \<in> set ins. \<not> isNamed x);
               args0 = (if isUnnamed then ArgsArray [] else ArgsObject []);
               argTopics = tl tps;
               indexedInputs = filter paramIndexed ins;
               nonIndexedInputs = filter (\<lambda>x. \<not> paramIndexed x) ins
           in case decodeIndexed v isUnnamed indexedInputs argTopics 0 args0 of
                Inl e \<Rightarrow> Inl e
              | Inr args1 \<Rightarrow>
                  (case (if length nonIndexedInputs > 0 \<and> dat \<noteq> [] \<and> dat \<noteq> ''0x''
                         then (case decodeAbiParameters v nonIndexedInputs dat of
                                 Inl e \<Rightarrow> Inl e
                               | Inr decodedData \<Rightarrow>
                                   Inr (case args1 of
                                          ArgsArray xs \<Rightarrow> ArgsArray (xs @ map Some decodedData)
                                        | ArgsObject kvs \<Rightarrow>
                                            ArgsObject (fold (\<lambda>i. setKey (nameKey (nonIndexedInputs ! i)) (nthOpt decodedData i))
                                                         [0..<length nonIndexedInputs] kvs)))
                         else Inr args1) of
                     Inl e \<Rightarrow> Inl e
                   | Inr args2 \<Rightarrow> Inr (if argCount args2 > 0 then Some args2 else None))))"

definition toLowerCase :: "string \<Rightarrow> string" where
  "toLowerCase s =
     map (\<lambda>c. let n = (of_char c :: nat) in
                if (65 \<le> n \<and> n \<le> 90) \<or> (192 \<le> n \<and> n \<le> 222 \<and> n \<noteq> 215)
                then char_of (n + 32) else c) s"

definition blockEvent :: "string \<Rightarrow> rawEvent \<Rightarrow> event" where
  "blockEvent name ev =
     \<lparr> eventType = BlockType, eventChainId = chainId ev, eventCheckpoint = checkpoint ev,
       eventName = name @ '':block'', eventPayload = BlockPayload (block ev) \<rparr>"

definition tryDecodeLog ::
  "viem \<Rightarrow> string \<Rightarrow> (hex \<rightharpoonup> (string \<times> abiItem)) \<Rightarrow> rawEvent \<Rightarrow> js_error + event" where
  "tryDecodeLog v name abiEvents ev =
     (case log ev of
        None \<Rightarrow> Inl (Error ''Invalid log'')
      | Some lg \<Rightarrow>
          (case topics lg of
             [] \<Rightarrow> Inl (Error ''Invalid log'')
           | t0 # _ \<Rightarrow>
               if t0 = [] then Inl (Error ''Invalid log'')
               else case abiEvents t0 of
                      None \<Rightarrow> Inl (Error ''Invalid log'')
                    | Some (safeName, item) \<Rightarrow>
                        (case decodeEventLog v item (topics lg) (logData lg) of
                           Inl e \<Rightarrow> Inl e
                         | Inr a \<Rightarrow>
                             Inr \<lparr> eventType = LogType, eventChainId = chainId ev,
                                   eventCheckpoint = checkpoint ev,
                                   eventName = name @ '':'' @ safeName,
                                   eventPayload = LogPayload safeName a lg (block ev)
                                     (transaction ev) (transactionReceipt ev) \<rparr>)))"

definition tryDecodeCallTrace ::
  "viem \<Rightarrow> string \<Rightarrow> (hex \<rightharpoonup> (string \<times> abiItem)) \<Rightarrow> rawEvent \<Rightarrow> js_error + event" where
  "tryDecodeCallTrace v name abiFunctions ev =
     (case trace ev of
        None \<Rightarrow> Inl TypeError
      | Some tr \<Rightarrow>
          (let selector = toLowerCase (take 10 (traceInput tr)) in
           case abiFunctions selector of
             None \<Rightarrow> Inl (Error ''Invalid trace'')
           | Some (safeName, item) \<Rightarrow>
               (case decodeFunctionData v item (traceInput tr) of
                  Inl e \<Rightarrow> Inl e
                | Inr (a, functionName) \<Rightarrow>
                    (case decodeFunctionResult v item (traceOutput tr) functionName of
                       Inl e \<Rightarrow> Inl e
                     | Inr result \<Rightarrow>
                         Inr \<lparr> eventType = CallTraceType, eventChainId = chainId ev,
                               eventCheckpoint = checkpoint ev,
                               eventName = name @ ''.'' @ safeName,
                               eventPayload = CallTracePayload a result tr (block ev)
                                 (transaction ev) (transactionReceipt ev) \<rparr>))))"

fun decoderProcessEventsLoop ::
  "viem \<Rightarrow> source list \<Rightarrow> rawEvent list \<Rightarrow> event list \<Rightarrow> js_error + event list" where
  "decoderProcessEventsLoop v sources [] decodedEvents = Inr decodedEvents"
| "decoderProcessEventsLoop v sources (ev # rest) decodedEvents =
     (case nthOpt sources (sourceIndex ev) of
        None \<Rightarrow> Inl TypeError
      | Some (BlockSource name) \<Rightarrow>
          decoderProcessEventsLoop v sources rest (decodedEvents @ [blockEvent name ev])
      | Some (ContractSource name LogFilter abiEvents abiFunctions) \<Rightarrow>
          (case tryDecodeLog v name abiEvents ev of
             Inl _ \<Rightarrow> decoderProcessEventsLoop v sources rest decodedEvents
           | Inr e \<Rightarrow> decoderProcessEventsLoop v sources rest (decodedEvents @ [e]))
      | Some (ContractSource name CallTraceFilter abiEvents abiFunctions) \<Rightarrow>
          (case tryDecodeCallTrace v name abiFunctions ev of
             Inl _ \<Rightarrow> decoderProcessEventsLoop v sources rest decodedEvents
           | Inr e \<Rightarrow> decoderProcessEventsLoop v sources rest (decodedEvents @ [e])))"

text \<open>The function \<open>processEvents\<close> of the decoder worker; the service below has a
  method of the same name.\<close>

definition decoderProcessEvents :: "viem \<Rightarrow> rawEvent list \<Rightarrow> source list \<Rightarrow> js_error + event list" where
  "decoderProcessEvents v events sources = decoderProcessEventsLoop v sources events []"

text \<open>
  A row is successfully decoded, in the words of the specification, when its source is a
  block source, or its log's first topic has an entry in the event table and decoding the
  log does not throw, or the selector of its trace (the first ten characters of the input)
  has an entry in the function table and decoding the call and its result does not throw.
\<close>

definition successfullyDecoded :: "viem \<Rightarrow> source list \<Rightarrow> rawEvent \<Rightarrow> bool" where
  "successfullyDecoded v sources ev =
     (case sources ! sourceIndex ev of
        BlockSource name \<Rightarrow> True
      | ContractSource name LogFilter abiEvents abiFunctions \<Rightarrow>
          (case log ev of
             None \<Rightarrow> False
           | Some lg \<Rightarrow>
               (case topics lg of
                  [] \<Rightarrow> False
                | t0 # _ \<Rightarrow>
                    t0 \<noteq> [] \<and>
                    (case abiEvents t0 of
                       None \<Rightarrow> False
                     | Some (safeName, item) \<Rightarrow>
                         \<not> isl (decodeEventLog v item (topics lg) (logData lg)))))
      | ContractSource name CallTraceFilter abiEvents abiFunctions \<Rightarrow>
          (case trace ev of
             None \<Rightarrow> False
           | Some tr \<Rightarrow>
               (case abiFunctions (toLowerCase (take 10 (traceInput tr))) of
                  None \<Rightarrow> False
                | Some (safeName, item) \<Rightarrow>
                    (case decodeFunctionData v item (traceInput tr) of
                       Inl _ \<Rightarrow> False
                     | Inr (a, functionName) \<Rightarrow>
                         \<not> isl (decodeFunctionResult v item (traceOutput tr) functionName)))))"

text \<open>What one pass of the loop body appends for a row whose source exists.\<close>

definition rowEvents :: "viem \<Rightarrow> source list \<Rightarrow> rawEvent \<Rightarrow> event list" where
  "rowEvents v sources ev =
     (case sources ! sourceIndex ev of
        BlockSource name \<Rightarrow> [blockEvent name ev]
      | ContractSource name LogFilter abiEvents abiFunctions \<Rightarrow>
          (case tryDecodeLog v name abiEvents ev of Inl _ \<Rightarrow> [] | Inr e \<Rightarrow> [e])
      | ContractSource name CallTraceFilter abiEvents abiFunctions \<Rightarrow>
          (case tryDecodeCallTrace v name abiFunctions ev of Inl _ \<Rightarrow> [] | Inr e \<Rightarrow> [e]))"

subsection \<open>Example data\<close>

definition exampleViem :: viem where
  "exampleViem =
     \<lparr> decodeAbiParameters = (\<lambda>params dat. if dat = ''0xbad'' then Inl (ExternalError ''decode'') else Inr (map (\<lambda>_. dat) params)),
       decodeFunctionData = (\<lambda>item dat. Inr ([dat], ''transfer'')),
       decodeFunctionResult = (\<lambda>item dat functionName. Inr dat) \<rparr>"

definition exampleSources :: "source list" where
  "exampleSources =
     [ BlockSource ''Blocks'',
       ContractSource ''Pair'' LogFilter
         [''0xaa'' \<mapsto> (''Swap'', \<lparr> inputs = Some [\<lparr> paramName = Some ''amount'', paramIndexed = False, paramType = ''uint256'' \<rparr>] \<rparr>)]
         Map.empty ]"

definition exampleRow :: "nat \<Rightarrow> nat \<Rightarrow> string \<Rightarrow> rawLog option \<Rightarrow> rawEvent" where
  "exampleRow cid src cp lg =
     \<lparr> chainId = cid, sourceIndex = src, checkpoint = cp,
       block = \<lparr> blockHash = ''0xb'', blockNumber = 10, blockTimestamp = 1000 \<rparr>,
       log = lg, trace = None, transaction = Some ''0xt'', transactionReceipt = None \<rparr>"

definition exampleBatch :: "rawEvent list" where
  "exampleBatch =
     [ exampleRow 1 0 ''c1'' None,
       exampleRow 1 1 ''c2'' (Some \<lparr> topics = [''0xff''], logData = ''0x01'' \<rparr>),
       exampleRow 5 1 ''c3'' (Some \<lparr> topics = [''0xaa''], logData = ''0x02'' \<rparr>),
       exampleRow 5 1 ''c4'' (Some \<lparr> topics = [''0xaa''], logData = ''0xbad'' \<rparr>) ]"

subsection \<open>One event per decoded row\<close>

lemma decoderProcessEventsLoop_step:
  "sourceIndex ev < length sources \<Longrightarrow>
     decoderProcessEventsLoop v sources (ev # rest) acc
       = decoderProcessEventsLoop v sources rest (acc @ rowEvents v sources ev)"
  by (simp add: nthOpt_def rowEvents_def split: source.splits filterType.splits sum.splits)

lemma decoderProcessEventsLoop_concat:
  "\<forall>ev \<in> set events. sourceIndex ev < length sources \<Longrightarrow>
     decoderProcessEventsLoop v sources events acc = Inr (acc @ concat (map (rowEvents v sources) events))"
proof (induction events arbitrary: acc)
  case Nil
  show ?case by simp
next
  case (Cons ev events)
  then show ?case by (simp add: decoderProcessEventsLoop_step del: decoderProcessEventsLoop.simps)
qed

lemma tryDecodeLog_fields:
  "tryDecodeLog v name abiEvents ev = Inr e \<Longrightarrow>
     eventChainId e = chainId ev \<and> eventCheckpoint e = checkpoint ev \<and> eventType e = LogType"
  by (auto simp: tryDecodeLog_def split: option.splits list.splits if_splits sum.splits prod.splits)

lemma tryDecodeCallTrace_fields:
  "tryDecodeCallTrace v name abiFunctions ev = Inr e \<Longrightarrow>
     eventChainId e = chainId ev \<and> eventCheckpoint e = checkpoint ev \<and> eventType e = CallTraceType"
  by (auto simp: tryDecodeCallTrace_def Let_def split: option.splits sum.splits prod.splits)

lemma tryDecodeLog_success:
  "sources ! sourceIndex ev = ContractSource name LogFilter abiEvents abiFunctions \<Longrightarrow>
     successfullyDecoded v sources ev \<longleftrightarrow> \<not> isl (tryDecodeLog v name abiEvents ev)"
  by (auto simp: successfullyDecoded_def tryDecodeLog_def
           split: option.splits list.splits sum.splits prod.splits)

lemma tryDecodeCallTrace_success:
  "sources ! sourceIndex ev = ContractSource name CallTraceFilter abiEvents abiFunctions \<Longrightarrow>
     successfullyDecoded v sources ev \<longleftrightarrow> \<not> isl (tryDecodeCallTrace v name abiFunctions ev)"
  by (auto simp: successfullyDecoded_def tryDecodeCallTrace_def Let_def
           split: option.splits sum.splits prod.splits)

lemma rowEvents_cases:
  "(successfullyDecoded v sources ev \<and>
      (\<exists>e. rowEvents v sources ev = [e] \<and> eventChainId e = chainId ev \<and> eventCheckpoint e = checkpoint ev))
   \<or> (\<not> successfullyDecoded v sources ev \<and> rowEvents v sources ev = [])"
proof (cases "sources ! sourceIndex ev")
  case (BlockSource name)
  then show ?thesis by (simp add: successfullyDecoded_def rowEvents_def blockEvent_def)
next
  case (ContractSource name ft abiEvents abiFunctions)
  show ?thesis
  proof (cases ft)
    case LogFilter
    with ContractSource have s: "sources ! sourceIndex ev = ContractSource name LogFilter abiEvents abiFunctions"
      by simp
    show ?thesis
      using tryDecodeLog_success [OF s, of v] tryDecodeLog_fields [of v name abiEvents ev]
      by (cases "tryDecodeLog v name abiEvents ev") (simp_all add: rowEvents_def s)
  next
    case CallTraceFilter
    with ContractSource have s: "sources ! sourceIndex ev = ContractSource name CallTraceFilter abiEvents abiFunctions"
      by simp
    show ?thesis
      using tryDecodeCallTrace_success [OF s, of v] tryDecodeCallTrace_fields [of v name abiFunctions ev]
      by (cases "tryDecodeCallTrace v name abiFunctions ev") (simp_all add: rowEvents_def s)
  qed
qed

lemma concat_rowEvents:
  "map eventChainId (concat (map (rowEvents v sources) events))
     = map chainId (filter (successfullyDecoded v sources) events)
   \<and> map eventCheckpoint (concat (map (rowEvents v sources) events))
     = map checkpoint (filter (successfullyDecoded v sources) events)"
proof (induction events)
  case Nil
  show ?case by simp
next
  case (Cons ev events)
  from rowEvents_cases [of v sources ev] Cons show ?case by auto
qed

text \<open>
  Claim C4, amended. When every row's \<open>sourceIndex\<close> is an index of the source list,
  \<open>processEvents\<close> returns, and it returns exactly one event per successfully decoded
  row, in the order of the rows, each with its row's \<open>chainId\<close> and \<open>checkpoint\<close>; the
  other rows are dropped, so no row yields more than one event.
\<close>

theorem decoderProcessEvents_decoded:
  assumes "\<forall>ev \<in> set events. sourceIndex ev < length sources"
  shows "\<exists>decoded. decoderProcessEvents v events sources = Inr decoded
           \<and> length decoded = length (filter (successfullyDecoded v sources) events)
           \<and> length decoded \<le> length events
           \<and> map eventChainId decoded = map chainId (filter (successfullyDecoded v sources) events)
           \<and> map eventCheckpoint decoded = map checkpoint (filter (successfullyDecoded v sources) events)"
proof -
  let ?d = "concat (map (rowEvents v sources) events)"
  have r: "decoderProcessEvents v events sources = Inr ?d"
    using decoderProcessEventsLoop_concat [OF assms, of v "[]"] by (simp add: decoderProcessEvents_def)
  note c = concat_rowEvents [of v sources events]
  have "length ?d = length (map eventChainId ?d)" by simp
  also have "\<dots> = length (filter (successfullyDecoded v sources) events)"
    unfolding c [THEN conjunct1] by simp
  finally have l: "length ?d = length (filter (successfullyDecoded v sources) events)" .
  then have "length ?d \<le> length events" by simp
  with r l c show ?thesis by blast
qed

theorem decoderProcessEvents_decoded_witness:
  "list_all (\<lambda>ev. sourceIndex ev < length exampleSources) exampleBatch
   \<and> filter (successfullyDecoded exampleViem exampleSources) exampleBatch
        = [exampleRow 1 0 ''c1'' None,
           exampleRow 5 1 ''c3'' (Some \<lparr> topics = [''0xaa''], logData = ''0x02'' \<rparr>)]
   \<and> (\<exists>decoded. decoderProcessEvents exampleViem exampleBatch exampleSources = Inr decoded
         \<and> length decoded = 2
         \<and> map eventChainId decoded = [1, 5]
         \<and> map eventCheckpoint decoded = [''c1'', ''c3''])"
proof -
  have d1: "decodeEventLog exampleViem \<lparr> inputs = Some [\<lparr> paramName = Some ''amount'', paramIndexed = False, paramType = ''uint256'' \<rparr>] \<rparr> [''0xaa''] ''0x02''
             = Inr (Some (ArgsObject [(NameKey ''amount'', Some ''0x02'')]))"
    by (simp add: decodeEventLog_def exampleViem_def isNamed_def setKey_def nameKey_def nthOpt_def argCount_def)
  have d2: "decodeEventLog exampleViem \<lparr> inputs = Some [\<lparr> paramName = Some ''amount'', paramIndexed = False, paramType = ''uint256'' \<rparr>] \<rparr> [''0xaa''] ''0xbad''
             = Inl (ExternalError ''decode'')"
    by (simp add: decodeEventLog_def exampleViem_def isNamed_def)
  have h: "\<forall>ev \<in> set exampleBatch. sourceIndex ev < length exampleSources"
    by (simp add: exampleBatch_def exampleSources_def exampleRow_def)
  have f: "filter (successfullyDecoded exampleViem exampleSources) exampleBatch
        = [exampleRow 1 0 ''c1'' None,
           exampleRow 5 1 ''c3'' (Some \<lparr> topics = [''0xaa''], logData = ''0x02'' \<rparr>)]"
    by (simp add: exampleBatch_def successfullyDecoded_def exampleSources_def exampleRow_def d1 d2)
  have c: "map chainId [exampleRow 1 0 ''c1'' None,
           exampleRow 5 1 ''c3'' (Some \<lparr> topics = [''0xaa''], logData = ''0x02'' \<rparr>)] = [1, 5]"
     "map checkpoint [exampleRow 1 0 ''c1'' None,
           exampleRow 5 1 ''c3'' (Some \<lparr> topics = [''0xaa''], logData = ''0x02'' \<rparr>)] = [''c1'', ''c3'']"
    by (simp_all add: exampleRow_def)
  from decoderProcessEvents_decoded [OF h, of exampleViem]
  have "\<exists>decoded. decoderProcessEvents exampleViem exampleBatch exampleSources = Inr decoded
         \<and> length decoded = 2
         \<and> map eventChainId decoded = [1, 5]
         \<and> map eventCheckpoint decoded = [''c1'', ''c3'']"
    unfolding f c by (auto simp: numeral_2_eq_2)
  moreover have "list_all (\<lambda>ev. sourceIndex ev < length exampleSources) exampleBatch"
    using h by (simp add: list_all_iff)
  ultimately show ?thesis using f by simp
qed

text \<open>
  Claim C4 as stated ranges over every source list. A row whose \<open>sourceIndex\<close> is not an
  index of the list makes \<open>sources[event.sourceIndex]\<close> undefined; reading its \<open>type\<close>
  throws outside every \<open>try\<close>, and \<open>processEvents\<close> returns nothing.
\<close>

theorem decoderProcessEvents_unknown_source:
  "decoderProcessEvents exampleViem [exampleRow 1 0 ''c1'' None] [] = Inl TypeError"
  by (simp add: decoderProcessEvents_def nthOpt_def exampleRow_def)

section \<open>Event handler service (EventHandlerService.ts)\<close>

text \<open>
  The service is a class with mutable fields; its methods become functions from a state
  record to a new one. The types it imports from files that are not part of the sources at
  hand (\<open>Log\<close>, \<open>Resources\<close>, \<open>Handlers\<close>, \<open>Schema\<close>, the cache store) are records of
  the fields and methods that the service uses. User handlers are functions of the entity
  store, of type \<open>'st\<close>, that return the new store and the exception they threw, if any.

  A JavaScript number that holds a timestamp is an integer or \<open>Infinity\<close>
  (\<open>Math.min()\<close> of no argument).
\<close>

datatype jsnum = Finite int | Infinity

text \<open>The comparison \<open>a <= b\<close>.\<close>

fun num_le :: "jsnum \<Rightarrow> jsnum \<Rightarrow> bool" where
  "num_le (Finite a) (Finite b) = (a \<le> b)"
| "num_le (Finite a) Infinity = True"
| "num_le Infinity (Finite b) = False"
| "num_le Infinity Infinity = True"

text \<open>\<open>Math.min(...xs)\<close>.\<close>

definition mathMin :: "int list \<Rightarrow> jsnum" where
  "mathMin xs = (case xs of [] \<Rightarrow> Infinity | x # r \<Rightarrow> Finite (fold min r x))"

record cachedInterval =
  intervalStartBlock :: int
  intervalEndBlock :: int
  endBlockTimestamp :: int

record abiEntry =
  entryType :: string
  entryName :: string

record contract =
  contractName :: string
  contractAddress :: hex
  contractAbi :: "abiEntry list"
  startBlock :: int
  isIndexed :: bool

record ponderLog =
  logAddress :: hex
  logBlockHash :: hex
  logTransactionHash :: hex
  logSortKey :: int
  logDataHex :: hex
  topic0 :: hex
  topic1 :: "hex option"
  topic2 :: "hex option"
  topic3 :: "hex option"

record transactionRow =
  transactionHash :: hex

record cacheStore =
  getCachedIntervals :: "hex \<Rightarrow> cachedInterval list"
  getLogs :: "hex \<Rightarrow> jsnum \<Rightarrow> jsnum \<Rightarrow> hex option list option \<Rightarrow> ponderLog list"
  getBlock :: "hex \<Rightarrow> block option"
  getTransaction :: "hex \<Rightarrow> transactionRow option"

type_synonym params = "(string \<times> abiValue) list"

record handlerEvent =
  hevName :: string
  hevParams :: params
  hevLog :: ponderLog
  hevBlock :: block
  hevTransaction :: transactionRow

record handlerContext =
  contextContracts :: "string list"
  contextEntities :: "string list"

type_synonym 'st handler = "handlerContext \<Rightarrow> handlerEvent \<Rightarrow> 'st \<Rightarrow> js_error option \<times> 'st"
type_synonym 'st setupFn = "handlerContext \<Rightarrow> 'st \<Rightarrow> js_error option \<times> 'st"

record 'st handlers =
  setupHandler :: "'st setupFn option"
  contractHandlers :: "string \<Rightarrow> (string \<times> 'st handler) list option"

record ponderSchema =
  schemaEntities :: "string list"

datatype task = SETUP | LOG ponderLog

record 'st queue =
  tasks :: "task list"
  isPaused :: bool
  queueHandlers :: "'st handlers"
  queueContext :: handlerContext

record eventHandlerError =
  errEventName :: string
  errBlockNumber :: "int option"
  errParams :: "params option"
  errStackTrace :: string
  errCodeFrame :: string
  errCause :: js_error

datatype emission =
  TaskStarted
| TaskCompleted "int option"
| EventsAdded nat nat jsnum jsnum
| EventsProcessed nat jsnum
| EventQueueReset

text \<open>
  The state: the resources that the service reads (contracts, cache store, the \<open>viem\<close>
  functions, the stack-trace helper), the error sink and the entity store, then the fields
  of the class, then the events emitted so far. \<open>eventProcessingMutex\<close> is the identity
  of the current \<open>Mutex\<close> object and \<open>cancelledMutexes\<close> lists the objects on which
  \<open>cancel()\<close> was called.
\<close>

record 'st service =
  contracts :: "contract list"
  cacheStore :: cacheStore
  encodeEventTopics :: "abiEntry list \<Rightarrow> string \<Rightarrow> js_error + hex list"
  viemDecodeEventLog ::
    "abiEntry list \<Rightarrow> hex \<Rightarrow> hex \<times> hex option \<times> hex option \<times> hex option
       \<Rightarrow> js_error + (string \<times> params) option"
  getStackTraceAndCodeFrame :: "js_error \<Rightarrow> string \<times> string"
  handlerErrors :: "eventHandlerError list"
  isHandlerError :: bool
  entityStore :: 'st
  handlers :: "'st handlers option"
  schema :: "ponderSchema option"
  queue :: "'st queue option"
  isBackfillStarted :: bool
  eventProcessingMutex :: nat
  cancelledMutexes :: "nat list"
  eventsHandledToTimestamp :: jsnum
  currentLogEventBlockNumber :: int
  emitted :: "emission list"

definition emit :: "emission \<Rightarrow> 'st service \<Rightarrow> 'st service" where
  "emit e s = s\<lparr> emitted := emitted s @ [e] \<rparr>"

text \<open>Modelled from the spec: the error sink \<open>resources.errors\<close>, whose code is not part of
  the sources at hand. \<open>submitHandlerError\<close> records the error, and from then on
  \<open>isHandlerError\<close> is true.\<close>

definition submitHandlerError :: "eventHandlerError \<Rightarrow> 'st service \<Rightarrow> 'st service" where
  "submitHandlerError e s = s\<lparr> handlerErrors := handlerErrors s @ [e], isHandlerError := True \<rparr>"

text \<open>Modelled from the spec: the queue built by \<open>createQueue\<close>, whose code is not part of
  the sources at hand. It holds the tasks in the order they were added, runs its worker on
  one task at a time in that order (concurrency 1), does not start by itself, and \<open>clear\<close>
  discards every task that has not started. A worker that throws stops the drain, and the
  exception reaches the cycle that awaits the queue.\<close>

definition queueClear :: "'st service \<Rightarrow> 'st service" where
  "queueClear s = s\<lparr> queue := map_option (\<lambda>q. q\<lparr> tasks := [] \<rparr>) (queue s) \<rparr>"

definition queueAddTask :: "task \<Rightarrow> 'st service \<Rightarrow> 'st service" where
  "queueAddTask t s = s\<lparr> queue := map_option (\<lambda>q. q\<lparr> tasks := tasks q @ [t] \<rparr>) (queue s) \<rparr>"

definition queueSetPaused :: "bool \<Rightarrow> 'st service \<Rightarrow> 'st service" where
  "queueSetPaused b s = s\<lparr> queue := map_option (\<lambda>q. q\<lparr> isPaused := b \<rparr>) (queue s) \<rparr>"

definition killQueue :: "'st service \<Rightarrow> 'st service" where
  "killQueue s = queueClear s"

subsection \<open>getNewEvents\<close>

text \<open>
  \<^verbatim>\<open>cachedIntervals.find((interval) =>\<close>
  \<^verbatim>\<open>  interval.startBlock <= contract.startBlock && interval.endBlock >= contract.startBlock)\<close>
  and \<open>-1\<close> when there is none.
\<close>

definition coversStartBlock :: "contract \<Rightarrow> cachedInterval \<Rightarrow> bool" where
  "coversStartBlock c interval =
     (intervalStartBlock interval \<le> startBlock c \<and> intervalEndBlock interval \<ge> startBlock c)"

definition cachedToTimestamp :: "cacheStore \<Rightarrow> contract \<Rightarrow> int" where
  "cachedToTimestamp cs c =
     (case find (coversStartBlock c) (getCachedIntervals cs (contractAddress c)) of
        None \<Rightarrow> -1
      | Some startingCachedInterval \<Rightarrow> endBlockTimestamp startingCachedInterval)"

record newEvents =
  hasNewLogs :: bool
  toTimestamp :: jsnum
  logs :: "ponderLog list"
  totalLogCount :: "nat option"

text \<open>\<open>eventTopics[0]\<close>, undefined on an empty array.\<close>

definition nthOpt0 :: "'a list \<Rightarrow> 'a option" where
  "nthOpt0 xs = (case xs of [] \<Rightarrow> None | x # _ \<Rightarrow> Some x)"

text \<open>The selectors of the events that have a handler, in the order of
  \<open>Object.keys(contractHandlers)\<close>; \<open>encodeEventTopics\<close> throws on a name that the ABI
  does not have. The \<open>map\<close> over the names stops at the first name that throws: the
  first left summand of the list, which \<open>promiseAll\<close> computes.\<close>

definition eventSigHashes ::
  "'st service \<Rightarrow> contract \<Rightarrow> js_error + hex option list" where
  "eventSigHashes s c =
     (let hs = (case handlers s of None \<Rightarrow> (\<lambda>_. None) | Some h \<Rightarrow> contractHandlers h);
          chs = (case hs (contractName c) of None \<Rightarrow> [] | Some x \<Rightarrow> x);
          eventNames = map fst chs
      in promiseAll (map (\<lambda>eventName.
            case encodeEventTopics s (contractAbi c) eventName of
              Inl e \<Rightarrow> Inl e
            | Inr eventTopics \<Rightarrow> Inr (nthOpt0 eventTopics)) eventNames))"

text \<open>The two \<open>getLogs\<close> queries for one contract: the logs of the handled events, and
  all logs (counted for reporting).\<close>

definition contractRawLogs ::
  "'st service \<Rightarrow> jsnum \<Rightarrow> jsnum \<Rightarrow> contract \<Rightarrow> js_error + (ponderLog list \<times> ponderLog list)" where
  "contractRawLogs s fromTimestamp toTs c =
     (case eventSigHashes s c of
        Inl e \<Rightarrow> Inl e
      | Inr sigs \<Rightarrow>
          Inr (getLogs (cacheStore s) (contractAddress c) fromTimestamp toTs (Some sigs),
               getLogs (cacheStore s) (contractAddress c) fromTimestamp toTs None))"

text \<open>\<open>getNewEvents\<close>. The comparator of \<open>sort\<close> orders by \<open>logSortKey\<close> and the sort is
  stable, as \<open>sort_key\<close> is.\<close>

definition getNewEvents :: "'st service \<Rightarrow> jsnum \<Rightarrow> js_error + newEvents" where
  "getNewEvents s fromTimestamp =
     (let cs = filter isIndexed (contracts s);
          cachedToTimestamps = map (cachedToTimestamp (cacheStore s)) cs
      in if -1 \<in> set cachedToTimestamps
         then Inr \<lparr> hasNewLogs = False, toTimestamp = fromTimestamp, logs = [], totalLogCount = None \<rparr>
         else
           let toTs = mathMin cachedToTimestamps in
           if num_le toTs fromTimestamp
           then Inr \<lparr> hasNewLogs = False, toTimestamp = fromTimestamp, logs = [], totalLogCount = None \<rparr>
           else
             case promiseAll (map (contractRawLogs s fromTimestamp toTs) cs) of
               Inl e \<Rightarrow> Inl e
             | Inr rawLogs \<Rightarrow>
                 Inr \<lparr> hasNewLogs = True, toTimestamp = toTs,
                       logs = sort_key logSortKey (concat (map fst rawLogs)),
                       totalLogCount = Some (sum_list (map (\<lambda>r. length (snd r)) rawLogs)) \<rparr>)"

subsection \<open>The watermark and the order of the logs\<close>

text \<open>Cached intervals of one contract are disjoint when every two of them are apart.\<close>

definition separated :: "cachedInterval \<Rightarrow> cachedInterval \<Rightarrow> bool" where
  "separated a b = (intervalEndBlock a < intervalStartBlock b \<or> intervalEndBlock b < intervalStartBlock a)"

fun disjointIntervals :: "cachedInterval list \<Rightarrow> bool" where
  "disjointIntervals [] = True"
| "disjointIntervals (a # rest) = ((\<forall>b \<in> set rest. separated a b) \<and> disjointIntervals rest)"

lemma num_le_antisym: "num_le a b \<Longrightarrow> num_le b a \<Longrightarrow> a = b"
  by (cases a; cases b) simp_all

lemma mathMin_Min: "xs \<noteq> [] \<Longrightarrow> mathMin xs = Finite (Min (set xs))"
proof -
  assume "xs \<noteq> []"
  then obtain x r where xs: "xs = x # r" by (cases xs) auto
  have "fold min r x = Min (set (x # r))" by (rule Min.set_eq_fold [symmetric])
  then show ?thesis unfolding xs mathMin_def by simp
qed

lemma find_covering:
  "disjointIntervals ivs \<Longrightarrow> iv \<in> set ivs \<Longrightarrow> coversStartBlock c iv \<Longrightarrow>
     find (coversStartBlock c) ivs = Some iv"
proof (induction ivs)
  case Nil
  then show ?case by simp
next
  case (Cons a rest)
  show ?case
  proof (cases "coversStartBlock c a")
    case True
    have "iv = a"
    proof (rule ccontr)
      assume "iv \<noteq> a"
      with Cons.prems have "separated a iv" by auto
      with True Cons.prems(3) show False
        by (auto simp: separated_def coversStartBlock_def)
    qed
    with True show ?thesis by simp
  next
    case False
    with Cons.prems have "iv \<in> set rest" by auto
    with Cons False show ?thesis by simp
  qed
qed

lemma cachedToTimestamp_covering:
  assumes "disjointIntervals (getCachedIntervals cs (contractAddress c))"
    and "iv \<in> set (getCachedIntervals cs (contractAddress c))" and "coversStartBlock c iv"
  shows "cachedToTimestamp cs c = endBlockTimestamp iv"
  using find_covering [OF assms] by (simp add: cachedToTimestamp_def)

lemma cachedToTimestamp_uncovered:
  "\<forall>iv \<in> set (getCachedIntervals cs (contractAddress c)). \<not> coversStartBlock c iv \<Longrightarrow>
     cachedToTimestamp cs c = -1"
proof -
  assume "\<forall>iv \<in> set (getCachedIntervals cs (contractAddress c)). \<not> coversStartBlock c iv"
  then have "find (coversStartBlock c) (getCachedIntervals cs (contractAddress c)) = None"
    by (simp add: find_None_iff)
  then show ?thesis by (simp add: cachedToTimestamp_def)
qed

text \<open>The result \<open>{ hasNewLogs: false, logs: [], toTimestamp: fromTimestamp }\<close>.\<close>

definition noNewEvents :: "jsnum \<Rightarrow> newEvents" where
  "noNewEvents fromTimestamp =
     \<lparr> hasNewLogs = False, toTimestamp = fromTimestamp, logs = [], totalLogCount = None \<rparr>"

lemma getNewEvents_uncached:
  "-1 \<in> set (map (cachedToTimestamp (cacheStore s)) (filter isIndexed (contracts s))) \<Longrightarrow>
     getNewEvents s fromTimestamp = Inr (noNewEvents fromTimestamp)"
  by (simp add: getNewEvents_def noNewEvents_def)

lemma getNewEvents_behind:
  "num_le (mathMin (map (cachedToTimestamp (cacheStore s)) (filter isIndexed (contracts s)))) fromTimestamp \<Longrightarrow>
     getNewEvents s fromTimestamp = Inr (noNewEvents fromTimestamp)"
  by (simp add: getNewEvents_def noNewEvents_def Let_def)

lemma getNewEvents_ahead:
  assumes "-1 \<notin> set (map (cachedToTimestamp (cacheStore s)) (filter isIndexed (contracts s)))"
    and "\<not> num_le (mathMin (map (cachedToTimestamp (cacheStore s)) (filter isIndexed (contracts s)))) fromTimestamp"
  shows "getNewEvents s fromTimestamp =
     (case promiseAll (map (contractRawLogs s fromTimestamp
                (mathMin (map (cachedToTimestamp (cacheStore s)) (filter isIndexed (contracts s)))))
              (filter isIndexed (contracts s))) of
        Inl e \<Rightarrow> Inl e
      | Inr rawLogs \<Rightarrow>
          Inr \<lparr> hasNewLogs = True,
                toTimestamp = mathMin (map (cachedToTimestamp (cacheStore s)) (filter isIndexed (contracts s))),
                logs = sort_key logSortKey (concat (map fst rawLogs)),
                totalLogCount = Some (sum_list (map (\<lambda>r. length (snd r)) rawLogs)) \<rparr>)"
  using assms unfolding getNewEvents_def Let_def by (simp only: if_False)

lemma promiseAll_cases:
  "(\<exists>x \<in> set ps. isl x) \<and> isl (promiseAll ps) \<or> (\<forall>x \<in> set ps. \<not> isl x) \<and> promiseAll ps = Inr (map projr ps)"
  by (induction ps rule: promiseAll.induct) (auto split: sum.splits)

text \<open>
  Claim C1, amended. Let every indexed source have disjoint cached intervals, one of which,
  \<open>bound c\<close>, contains its \<open>startBlock\<close> (with a timestamp other than the marker
  \<open>-1\<close>), and let \<open>m\<close> be the minimum over the sources of the \<open>endBlockTimestamp\<close> of
  that interval. Whenever \<open>fromTimestamp\<close> is at most \<open>m\<close>, the \<open>toTimestamp\<close> that
  \<open>getNewEvents\<close> returns is \<open>m\<close>. In detail: when \<open>m\<close> exceeds \<open>fromTimestamp\<close>,
  \<open>getNewEvents\<close> returns \<open>hasNewLogs = true\<close> and \<open>toTimestamp = m\<close> (it returns
  whenever the event names of the handlers encode); otherwise it returns
  \<open>hasNewLogs = false\<close> and \<open>toTimestamp = fromTimestamp\<close>. If some indexed source has no cached interval containing its
  \<open>startBlock\<close>, the result has \<open>hasNewLogs = false\<close> whatever the other sources have.
\<close>

theorem getNewEvents_watermark:
  fixes s :: "'st service" and bound :: "contract \<Rightarrow> cachedInterval"
  defines "cs \<equiv> filter isIndexed (contracts s)"
  defines "m \<equiv> mathMin (map (\<lambda>c. endBlockTimestamp (bound c)) cs)"
  shows
    "((\<forall>c \<in> set cs.
          disjointIntervals (getCachedIntervals (cacheStore s) (contractAddress c))
        \<and> bound c \<in> set (getCachedIntervals (cacheStore s) (contractAddress c))
        \<and> coversStartBlock c (bound c)
        \<and> endBlockTimestamp (bound c) \<noteq> -1) \<longrightarrow>
        (cs \<noteq> [] \<longrightarrow> m = Finite (Min ((\<lambda>c. endBlockTimestamp (bound c)) ` set cs)))
      \<and> (num_le fromTimestamp m \<longrightarrow>
            (\<forall>r. getNewEvents s fromTimestamp = Inr r \<longrightarrow> toTimestamp r = m))
      \<and> (num_le m fromTimestamp \<longrightarrow>
            getNewEvents s fromTimestamp = Inr (noNewEvents fromTimestamp))
      \<and> (\<not> num_le m fromTimestamp \<longrightarrow>
            (\<forall>r. getNewEvents s fromTimestamp = Inr r \<longrightarrow> hasNewLogs r \<and> toTimestamp r = m)
          \<and> ((\<forall>c \<in> set cs. \<not> isl (eventSigHashes s c)) \<longrightarrow>
                (\<exists>r. getNewEvents s fromTimestamp = Inr r))))
   \<and> ((\<exists>c \<in> set cs. \<forall>iv \<in> set (getCachedIntervals (cacheStore s) (contractAddress c)).
          \<not> coversStartBlock c iv) \<longrightarrow>
        getNewEvents s fromTimestamp = Inr (noNewEvents fromTimestamp))"
proof (intro conjI impI)
  assume "\<exists>c \<in> set cs. \<forall>iv \<in> set (getCachedIntervals (cacheStore s) (contractAddress c)).
          \<not> coversStartBlock c iv"
  then obtain c where "c \<in> set cs" and "cachedToTimestamp (cacheStore s) c = -1"
    using cachedToTimestamp_uncovered by blast
  then have "-1 \<in> set (map (cachedToTimestamp (cacheStore s)) cs)" by force
  then show "getNewEvents s fromTimestamp = Inr (noNewEvents fromTimestamp)"
    unfolding cs_def by (rule getNewEvents_uncached)
next
  assume "cs \<noteq> []"
  then show "m = Finite (Min ((\<lambda>c. endBlockTimestamp (bound c)) ` set cs))"
    unfolding m_def by (simp add: mathMin_Min)
next
  assume h: "\<forall>c \<in> set cs.
          disjointIntervals (getCachedIntervals (cacheStore s) (contractAddress c))
        \<and> bound c \<in> set (getCachedIntervals (cacheStore s) (contractAddress c))
        \<and> coversStartBlock c (bound c)
        \<and> endBlockTimestamp (bound c) \<noteq> -1"
  then have eq: "map (cachedToTimestamp (cacheStore s)) cs = map (\<lambda>c. endBlockTimestamp (bound c)) cs"
    by (auto intro: cachedToTimestamp_covering)
  from h have no: "-1 \<notin> set (map (cachedToTimestamp (cacheStore s)) cs)"
    unfolding eq by auto
  have m: "mathMin (map (cachedToTimestamp (cacheStore s)) cs) = m"
    unfolding m_def eq ..
  have behind: "getNewEvents s fromTimestamp = Inr (noNewEvents fromTimestamp)"
    if "num_le m fromTimestamp"
    using that getNewEvents_behind [of s fromTimestamp] m unfolding cs_def by simp
  have ahead: "\<forall>r. getNewEvents s fromTimestamp = Inr r \<longrightarrow> hasNewLogs r \<and> toTimestamp r = m"
    if a: "\<not> num_le m fromTimestamp"
    unfolding getNewEvents_ahead [of s fromTimestamp, folded cs_def, unfolded m, OF no a]
    by (auto split: sum.splits)
  {
    assume "num_le m fromTimestamp"
    then show "getNewEvents s fromTimestamp = Inr (noNewEvents fromTimestamp)" by (rule behind)
  }
  {
    assume le: "num_le fromTimestamp m"
    show "\<forall>r. getNewEvents s fromTimestamp = Inr r \<longrightarrow> toTimestamp r = m"
    proof (cases "num_le m fromTimestamp")
      case True
      with le have "fromTimestamp = m" by (rule num_le_antisym)
      with behind [OF True] show ?thesis by (simp add: noNewEvents_def)
    next
      case False
      from ahead [OF False] show ?thesis by blast
    qed
  }
  assume a: "\<not> num_le m fromTimestamp"
  note g = getNewEvents_ahead [of s fromTimestamp, folded cs_def, unfolded m, OF no a]
  show "\<forall>r. getNewEvents s fromTimestamp = Inr r \<longrightarrow> hasNewLogs r \<and> toTimestamp r = m"
    by (rule ahead [OF a])
  assume "\<forall>c \<in> set cs. \<not> isl (eventSigHashes s c)"
  then have "\<forall>x \<in> set (map (contractRawLogs s fromTimestamp m) cs). \<not> isl x"
    by (auto simp: contractRawLogs_def split: sum.splits)
  with promiseAll_cases [of "map (contractRawLogs s fromTimestamp m) cs"]
  have "\<not> isl (promiseAll (map (contractRawLogs s fromTimestamp m) cs))" by auto
  then show "\<exists>r. getNewEvents s fromTimestamp = Inr r"
    unfolding g by (auto split: sum.splits)
qed

text \<open>
  Claim C3. The logs that \<open>getNewEvents\<close> returns are sorted by \<open>logSortKey\<close>: for all
  positions \<open>i < j\<close>, the key at \<open>i\<close> is at most the key at \<open>j\<close>. When there are new
  logs they are, as a multiset, the logs gathered from all indexed contracts.
\<close>

theorem getNewEvents_sorted:
  assumes "getNewEvents s fromTimestamp = Inr r"
  shows "sorted (map logSortKey (logs r))
       \<and> (\<forall>i j. i < j \<and> j < length (logs r) \<longrightarrow> logSortKey (logs r ! i) \<le> logSortKey (logs r ! j))
       \<and> (hasNewLogs r \<longrightarrow>
            (\<exists>rawLogs. promiseAll (map (contractRawLogs s fromTimestamp (toTimestamp r))
                                     (filter isIndexed (contracts s))) = Inr rawLogs
                     \<and> mset (logs r) = mset (concat (map fst rawLogs))))"
proof -
  have a: "sorted (map logSortKey (logs r))"
    using assms by (auto simp: getNewEvents_def Let_def split: if_splits sum.splits)
  have b: "logSortKey (logs r ! i) \<le> logSortKey (logs r ! j)" if "i < j" "j < length (logs r)" for i j
    using a that sorted_nth_mono [of "map logSortKey (logs r)" i j] by simp
  have c: "\<exists>rawLogs. promiseAll (map (contractRawLogs s fromTimestamp (toTimestamp r))
                                     (filter isIndexed (contracts s))) = Inr rawLogs
                     \<and> mset (logs r) = mset (concat (map fst rawLogs))" if "hasNewLogs r"
    using assms that by (auto simp: getNewEvents_def Let_def split: if_splits sum.splits)
  from a b c show ?thesis by blast
qed

text \<open>
  Claim C8. The result of \<open>getNewEvents\<close> is a function of the configured contracts, the
  cache store, the handler bindings (with the ABI encoder) and \<open>fromTimestamp\<close> alone: two
  invocations in states that agree on these return the same \<open>toTimestamp\<close>, the same
  \<open>hasNewLogs\<close> and the same logs, whatever else changed between them.
\<close>

theorem getNewEvents_deterministic:
  assumes "contracts s = contracts s'" and "cacheStore s = cacheStore s'"
    and "encodeEventTopics s = encodeEventTopics s'" and "handlers s = handlers s'"
  shows "getNewEvents s fromTimestamp = getNewEvents s' fromTimestamp"
proof -
  have e: "eventSigHashes s c = eventSigHashes s' c" for c
    using assms by (simp add: eventSigHashes_def)
  have "contractRawLogs s a b c = contractRawLogs s' a b c" for a b c
    by (simp only: contractRawLogs_def assms(2) e)
  then have r: "contractRawLogs s = contractRawLogs s'" by (intro ext)
  show ?thesis by (simp only: getNewEvents_def assms(1,2) r)
qed

subsection \<open>buildLogEvent\<close>

text \<open>\<open>decodeEventLog\<close> is imported from the library \<open>viem\<close>, which is not code of this
  repository: the service takes it as the parameter \<open>viemDecodeEventLog\<close>. What the library
  function does, as far as \<open>buildLogEvent\<close> depends on it: the ABI item is the event whose
  selector is \<open>topics[0]\<close>; when the ABI has no such event it throws
  \<open>AbiEventSignatureNotFoundError\<close>; otherwise it decodes the arguments (which may throw) and
  returns the event's name with them. It has no falsy result. The selector of an ABI item (the
  hash of its signature) and the decoding of the arguments are parameters.\<close>

definition viem_decodeEventLog ::
  "(abiEntry \<Rightarrow> hex) \<Rightarrow> (abiEntry \<Rightarrow> hex \<Rightarrow> hex option \<times> hex option \<times> hex option \<Rightarrow> js_error + params)
     \<Rightarrow> abiEntry list \<Rightarrow> hex \<Rightarrow> hex \<times> hex option \<times> hex option \<times> hex option
     \<Rightarrow> js_error + (string \<times> params) option" where
  "viem_decodeEventLog selector decodeArgs abi d ts =
     (case ts of
        (t0, rest) \<Rightarrow>
          (case find (\<lambda>item. entryType item = ''event'' \<and> selector item = t0) abi of
             None \<Rightarrow> Inl (ExternalError ''AbiEventSignatureNotFoundError'')
           | Some item \<Rightarrow>
               (case decodeArgs item d rest of
                  Inl e \<Rightarrow> Inl e
                | Inr ps \<Rightarrow> Inr (Some (entryName item, ps)))))"

text \<open>\<open>buildLogEvent\<close> returns the handler and the event, \<open>undefined\<close> (here \<open>None\<close>) for
  a log that is skipped, or throws. The branch \<open>if (!decodedLog)\<close> is written as the source has
  it (\<open>Inr None\<close> from the decoder); an error thrown by \<open>decodeEventLog\<close> is not caught in
  \<open>buildLogEvent\<close> and leaves it.\<close>

definition buildLogEvent ::
  "'st service \<Rightarrow> 'st handlers \<Rightarrow> ponderLog \<Rightarrow> js_error + ('st handler \<times> handlerEvent) option" where
  "buildLogEvent s hs lg =
     (case find (\<lambda>c. contractAddress c = logAddress lg) (contracts s) of
        None \<Rightarrow> Inr None
      | Some c \<Rightarrow>
          (case contractHandlers hs (contractName c) of
             None \<Rightarrow> Inr None
           | Some chs \<Rightarrow>
               (case viemDecodeEventLog s
                       (filter (\<lambda>item. entryType item \<noteq> ''constructor'') (contractAbi c))
                       (logDataHex lg) (topic0 lg, topic1 lg, topic2 lg, topic3 lg) of
                  Inl e \<Rightarrow> Inl e
                | Inr None \<Rightarrow> Inr None
                | Inr (Some (eventName', ps)) \<Rightarrow>
                    (case map_of chs eventName' of
                       None \<Rightarrow> Inr None
                     | Some h \<Rightarrow>
                         (case getBlock (cacheStore s) (logBlockHash lg) of
                            None \<Rightarrow> Inl (Error (''Block with hash not found: '' @ logBlockHash lg))
                          | Some b \<Rightarrow>
                              (case getTransaction (cacheStore s) (logTransactionHash lg) of
                                 None \<Rightarrow>
                                   Inl (Error (''Transaction with hash not found: ''
                                                 @ logTransactionHash lg))
                               | Some t \<Rightarrow>
                                   Inr (Some (h, \<lparr> hevName = eventName', hevParams = ps, hevLog = lg,
                                                   hevBlock = b, hevTransaction = t \<rparr>))))))))"

subsection \<open>The queue and its worker\<close>

text \<open>The context injected into handlers: the read-only contracts (one per configured
  contract) and one model per entity of the schema.\<close>

definition buildContext :: "'st service \<Rightarrow> ponderSchema \<Rightarrow> handlerContext" where
  "buildContext s sc =
     \<lparr> contextContracts = map contractName (contracts s), contextEntities = schemaEntities sc \<rparr>"

text \<open>The \<open>catch\<close> block of the worker: clear the queue, then submit the error.\<close>

definition handlerFailed :: "eventHandlerError \<Rightarrow> 'st service \<Rightarrow> 'st service" where
  "handlerFailed e s = submitHandlerError e (queueClear s)"

text \<open>The worker of the queue. \<open>hs\<close> and \<open>ctx\<close> are the handlers and the context that
  \<open>createEventQueue\<close> closed over.\<close>

definition eventHandlerWorker ::
  "'st handlers \<Rightarrow> handlerContext \<Rightarrow> task \<Rightarrow> 'st service \<Rightarrow> js_error option \<times> 'st service" where
  "eventHandlerWorker hs ctx t s0 =
     (let s = emit TaskStarted s0 in
      case t of
        SETUP \<Rightarrow>
          (case setupHandler hs of
             None \<Rightarrow> (None, s)
           | Some h \<Rightarrow>
               (case h ctx (entityStore s) of
                  (None, st) \<Rightarrow> (None, emit (TaskCompleted None) (s\<lparr> entityStore := st \<rparr>))
                | (Some err, st) \<Rightarrow>
                    (None, emit (TaskCompleted None)
                       (handlerFailed
                          \<lparr> errEventName = ''setup'', errBlockNumber = None, errParams = None,
                            errStackTrace = fst (getStackTraceAndCodeFrame s err),
                            errCodeFrame = snd (getStackTraceAndCodeFrame s err),
                            errCause = err \<rparr>
                          (s\<lparr> entityStore := st \<rparr>)))))
      | LOG lg \<Rightarrow>
          (case buildLogEvent s hs lg of
             Inl e \<Rightarrow> (Some e, s)
           | Inr None \<Rightarrow> (None, s)
           | Inr (Some (h, ev)) \<Rightarrow>
               (let s1 = s\<lparr> currentLogEventBlockNumber := blockNumber (hevBlock ev) \<rparr> in
                case h ctx ev (entityStore s1) of
                  (None, st) \<Rightarrow>
                    (None, emit (TaskCompleted (Some (blockTimestamp (hevBlock ev))))
                             (s1\<lparr> entityStore := st \<rparr>))
                | (Some err, st) \<Rightarrow>
                    (None, emit (TaskCompleted (Some (blockTimestamp (hevBlock ev))))
                       (handlerFailed
                          \<lparr> errEventName = hevName ev,
                            errBlockNumber = Some (blockNumber (hevBlock ev)),
                            errParams = Some (hevParams ev),
                            errStackTrace = fst (getStackTraceAndCodeFrame s err),
                            errCodeFrame = snd (getStackTraceAndCodeFrame s err),
                            errCause = err \<rparr>
                          (s1\<lparr> entityStore := st \<rparr>))))))"

text \<open>The tasks waiting in the queue.\<close>

definition pendingTasks :: "'st service \<Rightarrow> task list" where
  "pendingTasks s = (case queue s of None \<Rightarrow> [] | Some q \<Rightarrow> tasks q)"

lemma pendingTasks_simps [simp]:
  "pendingTasks (emit e s) = pendingTasks s"
  "pendingTasks (s\<lparr> entityStore := st \<rparr>) = pendingTasks s"
  "pendingTasks (s\<lparr> currentLogEventBlockNumber := n \<rparr>) = pendingTasks s"
  "pendingTasks (handlerFailed err s) = []"
  by (simp_all add: pendingTasks_def emit_def handlerFailed_def submitHandlerError_def
        queueClear_def split: option.splits)

lemma eventHandlerWorker_pending:
  "eventHandlerWorker hs ctx t s = (r, s') \<Longrightarrow> length (pendingTasks s') \<le> length (pendingTasks s)"
  by (auto simp: eventHandlerWorker_def Let_def
           split: task.splits option.splits sum.splits prod.splits)

text \<open>\<open>queue.start()\<close> followed by \<open>await queue.onEmpty()\<close>: the worker runs on the
  first task until none is left. A worker never adds a task, so the drain ends. User
  handlers are taken to return.\<close>

function drainQueue :: "'st service \<Rightarrow> js_error option \<times> 'st service" where
  "drainQueue s =
     (case queue s of
        None \<Rightarrow> (None, s)
      | Some q \<Rightarrow>
          (case tasks q of
             [] \<Rightarrow> (None, s)
           | t # ts \<Rightarrow>
               (case eventHandlerWorker (queueHandlers q) (queueContext q) t
                       (s\<lparr> queue := Some (q\<lparr> tasks := ts \<rparr>) \<rparr>) of
                  (Some e, s') \<Rightarrow> (Some e, s')
                | (None, s') \<Rightarrow> drainQueue s')))"
  by pat_completeness auto
termination
proof (relation "measure (\<lambda>s. length (pendingTasks s))")
  show "wf (measure (\<lambda>s :: 'st service. length (pendingTasks s)))" by simp
next
  fix s s' :: "'st service" and q t ts r
  assume q: "queue s = Some q" and t: "tasks q = t # ts"
    and w: "(r, s') = eventHandlerWorker (queueHandlers q) (queueContext q) t
                        (s\<lparr> queue := Some (q\<lparr> tasks := ts \<rparr>) \<rparr>)"
  from w [symmetric]
  have "length (pendingTasks s') \<le> length (pendingTasks (s\<lparr> queue := Some (q\<lparr> tasks := ts \<rparr>) \<rparr>))"
    by (rule eventHandlerWorker_pending)
  also have "\<dots> < length (pendingTasks s)" using q t by (simp add: pendingTasks_def)
  finally show "(s', s) \<in> measure (\<lambda>s. length (pendingTasks s))" by simp
qed

declare drainQueue.simps [simp del]

subsection \<open>processEvents\<close>

text \<open>\<^verbatim>\<open>for (const log of logs) this.queue.addTask({ kind: "LOG", log })\<close>\<close>

definition addLogTasks :: "ponderLog list \<Rightarrow> 'st service \<Rightarrow> 'st service" where
  "addLogTasks ls s = foldl (\<lambda>st lg. queueAddTask (LOG lg) st) s ls"

text \<open>
  The callback run under the mutex, in two parts: up to the result of
  \<open>await this.getNewEvents(...)\<close>, and from there on. The second part reads the state as
  it is when the awaited promise resolves.
\<close>

definition cycleAfterFetch :: "'st service \<Rightarrow> newEvents \<Rightarrow> js_error option \<times> 'st service" where
  "cycleAfterFetch s r =
     (if \<not> hasNewLogs r then (None, s)
      else
        case queue s of
          None \<Rightarrow> (Some TypeError, s)
        | Some q \<Rightarrow>
            (let s1 = addLogTasks (logs r) s;
                 s2 = emit (EventsAdded (length (logs r))
                              (case totalLogCount r of None \<Rightarrow> length (logs r) | Some n \<Rightarrow> n)
                              (eventsHandledToTimestamp s1) (toTimestamp r)) s1;
                 s3 = queueSetPaused False s2
             in case drainQueue s3 of
                  (Some e, s4) \<Rightarrow> (Some e, s4)
                | (None, s4) \<Rightarrow>
                    (let s5 = queueSetPaused True s4;
                         s6 = s5\<lparr> eventsHandledToTimestamp := toTimestamp r \<rparr>
                     in (None, emit (EventsProcessed (length (logs r)) (toTimestamp r)) s6))))"

definition processEventsCycle :: "'st service \<Rightarrow> js_error option \<times> 'st service" where
  "processEventsCycle s =
     (case queue s of
        None \<Rightarrow> (None, s)
      | Some q \<Rightarrow>
          (case getNewEvents s (eventsHandledToTimestamp s) of
             Inl e \<Rightarrow> (Some e, s)
           | Inr r \<Rightarrow> cycleAfterFetch s r))"

text \<open>\<open>runExclusive\<close> either runs the callback, or rejects with \<open>E_CANCELED\<close> because
  the mutex was cancelled while the call was waiting for it. The \<open>catch\<close> of
  \<open>processEvents\<close> rethrows every exception but \<open>E_CANCELED\<close>.\<close>

datatype lockOutcome = Acquired | Cancelled

definition processEvents :: "lockOutcome \<Rightarrow> 'st service \<Rightarrow> js_error option \<times> 'st service" where
  "processEvents lock s =
     (if \<not> isBackfillStarted s then (None, s)
      else if isHandlerError s then (None, s)
      else
        case (case lock of Cancelled \<Rightarrow> (Some E_CANCELED, s) | Acquired \<Rightarrow> processEventsCycle s) of
          (Some e, s') \<Rightarrow> (if e \<noteq> E_CANCELED then (Some e, s') else (None, s'))
        | (None, s') \<Rightarrow> (None, s'))"

subsection \<open>resetEventQueue\<close>

text \<open>\<open>createEventQueue\<close> with \<open>autoStart: false\<close>, and \<open>resetEventQueue\<close>.\<close>

definition createEventQueue :: "'st service \<Rightarrow> 'st handlers \<Rightarrow> ponderSchema \<Rightarrow> 'st queue" where
  "createEventQueue s hs sc =
     \<lparr> tasks = [], isPaused = True, queueHandlers = hs, queueContext = buildContext s sc \<rparr>"

definition resetEventQueue ::
  "'st handlers option \<Rightarrow> ponderSchema option \<Rightarrow> 'st service \<Rightarrow> 'st service" where
  "resetEventQueue newHandlers newSchema s0 =
     (let s1 = (case newHandlers of None \<Rightarrow> s0 | Some h \<Rightarrow> s0\<lparr> handlers := Some h \<rparr>);
          s2 = (case newSchema of None \<Rightarrow> s1 | Some sc \<Rightarrow> s1\<lparr> schema := Some sc \<rparr>)
      in case handlers s2 of
           None \<Rightarrow> s2
         | Some hs \<Rightarrow>
             (case schema s2 of
                None \<Rightarrow> s2
              | Some sc \<Rightarrow>
                  (let s3 = s2\<lparr> cancelledMutexes := cancelledMutexes s2 @ [eventProcessingMutex s2] \<rparr>;
                       s4 = s3\<lparr> eventProcessingMutex := Suc (eventProcessingMutex s3) \<rparr>;
                       s5 = s4\<lparr> eventsHandledToTimestamp := Finite 0 \<rparr>;
                       s6 = s5\<lparr> queue := Some (createEventQueue s5 hs sc) \<rparr>;
                       s7 = emit EventQueueReset s6
                   in case setupHandler hs of
                        None \<Rightarrow> s7
                      | Some h \<Rightarrow>
                          emit (EventsAdded 1 1 (eventsHandledToTimestamp s7) (eventsHandledToTimestamp s7))
                            (queueAddTask SETUP s7))))"

subsection \<open>Example data\<close>

text \<open>Two contracts, one cached interval for the first and two for the second, three logs,
  and a handler that throws on the log with sort key 20.\<close>

definition exampleLog :: "hex \<Rightarrow> int \<Rightarrow> hex \<Rightarrow> ponderLog" where
  "exampleLog addr key bh =
     \<lparr> logAddress = addr, logBlockHash = bh, logTransactionHash = ''0xt1'', logSortKey = key,
       logDataHex = ''0x'', topic0 = ''0xswap'', topic1 = None, topic2 = None, topic3 = None \<rparr>"

definition exampleCache :: cacheStore where
  "exampleCache =
     \<lparr> getCachedIntervals = (\<lambda>a.
         if a = ''0xA'' then [\<lparr> intervalStartBlock = 100, intervalEndBlock = 200, endBlockTimestamp = 5000 \<rparr>]
         else if a = ''0xB'' then [\<lparr> intervalStartBlock = 10, intervalEndBlock = 20, endBlockTimestamp = 900 \<rparr>,
                                  \<lparr> intervalStartBlock = 50, intervalEndBlock = 300, endBlockTimestamp = 7000 \<rparr>]
         else []),
       getLogs = (\<lambda>a fromTs toTs sigs.
         if a = ''0xA'' then [exampleLog ''0xA'' 30 ''0xb1'', exampleLog ''0xA'' 10 ''0xb1'']
         else if a = ''0xB'' then [exampleLog ''0xB'' 20 ''0xb1'']
         else []),
       getBlock = (\<lambda>h. if h = ''0xb1''
                        then Some \<lparr> blockHash = ''0xb1'', blockNumber = 150, blockTimestamp = 4000 \<rparr>
                        else None),
       getTransaction = (\<lambda>h. if h = ''0xt1'' then Some \<lparr> transactionHash = ''0xt1'' \<rparr> else None) \<rparr>"

definition exampleContract :: "string \<Rightarrow> hex \<Rightarrow> int \<Rightarrow> contract" where
  "exampleContract name addr start =
     \<lparr> contractName = name, contractAddress = addr,
       contractAbi = [\<lparr> entryType = ''event'', entryName = ''Swap'' \<rparr>],
       startBlock = start, isIndexed = True \<rparr>"

definition exampleSwapHandler :: "nat handler" where
  "exampleSwapHandler ctx ev st =
     (if logSortKey (hevLog ev) = 20 then (Some (ExternalError ''boom''), st) else (None, st + 1))"

definition exampleHandlers :: "nat handlers" where
  "exampleHandlers =
     \<lparr> setupHandler = Some (\<lambda>ctx st. (None, st + 100)),
       contractHandlers = (\<lambda>n.
         if n = ''Pair'' \<or> n = ''Token'' then Some [(''Swap'', exampleSwapHandler)] else None) \<rparr>"

definition exampleService :: "nat service" where
  "exampleService =
     \<lparr> contracts = [exampleContract ''Pair'' ''0xA'' 100, exampleContract ''Token'' ''0xB'' 60],
       cacheStore = exampleCache,
       encodeEventTopics = (\<lambda>abi n. if n \<in> set (map entryName abi) then Inr [''0xswap'']
                                    else Inl (ExternalError ''AbiEventNotFound'')),
       viemDecodeEventLog =
         viem_decodeEventLog (\<lambda>item. if entryName item = ''Swap'' then ''0xswap'' else ''0x'')
           (\<lambda>item d rest. Inr []),
       getStackTraceAndCodeFrame = (\<lambda>e. (''stack'', ''frame'')),
       handlerErrors = [], isHandlerError = False, entityStore = 0,
       handlers = None, schema = None, queue = None, isBackfillStarted = True,
       eventProcessingMutex = 0, cancelledMutexes = [],
       eventsHandledToTimestamp = Finite 0, currentLogEventBlockNumber = 0, emitted = [] \<rparr>"

definition exampleBound :: "contract \<Rightarrow> cachedInterval" where
  "exampleBound c =
     (if contractName c = ''Pair''
      then \<lparr> intervalStartBlock = 100, intervalEndBlock = 200, endBlockTimestamp = 5000 \<rparr>
      else \<lparr> intervalStartBlock = 50, intervalEndBlock = 300, endBlockTimestamp = 7000 \<rparr>)"

subsection \<open>The watermark on the example\<close>

lemma example_cachedToTimestamps:
  "map (cachedToTimestamp (cacheStore exampleService)) (filter isIndexed (contracts exampleService))
     = [5000, 7000]"
  by (simp add: exampleService_def exampleContract_def exampleCache_def cachedToTimestamp_def
        coversStartBlock_def)

lemma example_eventSigHashes:
  "eventSigHashes exampleService c = Inr []"
  by (simp add: eventSigHashes_def exampleService_def)

theorem getNewEvents_watermark_witness:
  "(\<exists>r. getNewEvents exampleService (Finite 0) = Inr r \<and> hasNewLogs r \<and> toTimestamp r = Finite 5000)
   \<and> getNewEvents exampleService (Finite 5000) = Inr (noNewEvents (Finite 5000))
   \<and> getNewEvents (exampleService\<lparr> contracts := [exampleContract ''Pair'' ''0xA'' 100,
                                                   exampleContract ''Token'' ''0xB'' 30] \<rparr>) (Finite 0)
       = Inr (noNewEvents (Finite 0))"
proof -
  let ?cs = "filter isIndexed (contracts exampleService)"
  have cs: "?cs = [exampleContract ''Pair'' ''0xA'' 100, exampleContract ''Token'' ''0xB'' 60]"
    by (simp add: exampleService_def exampleContract_def)
  have h: "\<forall>c \<in> set ?cs.
          disjointIntervals (getCachedIntervals (cacheStore exampleService) (contractAddress c))
        \<and> exampleBound c \<in> set (getCachedIntervals (cacheStore exampleService) (contractAddress c))
        \<and> coversStartBlock c (exampleBound c)
        \<and> endBlockTimestamp (exampleBound c) \<noteq> -1"
    unfolding cs
    by (simp add: exampleService_def exampleContract_def exampleCache_def exampleBound_def
          coversStartBlock_def separated_def)
  have m: "mathMin (map (\<lambda>c. endBlockTimestamp (exampleBound c)) ?cs) = Finite 5000"
    unfolding cs by (simp add: mathMin_def exampleBound_def exampleContract_def)
  note t = getNewEvents_watermark [of exampleService exampleBound, THEN conjunct1, THEN mp, OF h,
      unfolded m]
  have a: "\<exists>r. getNewEvents exampleService (Finite 0) = Inr r \<and> hasNewLogs r \<and> toTimestamp r = Finite 5000"
    using t [of "Finite 0"] example_eventSigHashes by auto
  have b: "getNewEvents exampleService (Finite 5000) = Inr (noNewEvents (Finite 5000))"
    using t [of "Finite 5000"] by simp
  let ?s = "exampleService\<lparr> contracts := [exampleContract ''Pair'' ''0xA'' 100,
                                                   exampleContract ''Token'' ''0xB'' 30] \<rparr>"
  have u: "\<exists>c \<in> set (filter isIndexed (contracts ?s)).
            \<forall>iv \<in> set (getCachedIntervals (cacheStore ?s) (contractAddress c)). \<not> coversStartBlock c iv"
    by (simp add: exampleService_def exampleContract_def exampleCache_def coversStartBlock_def)
  have c: "getNewEvents ?s (Finite 0) = Inr (noNewEvents (Finite 0))"
    by (rule getNewEvents_watermark [of ?s _ "Finite 0", THEN conjunct2, THEN mp, OF u])
  from a b c show ?thesis by blast
qed

text \<open>
  Claim C1 as stated promises \<open>toTimestamp\<close> equal to the minimum of the sources' bounds.
  With bounds 5000 and 7000 and \<open>fromTimestamp = 6000\<close> the guard
  \<open>toTimestamp <= fromTimestamp\<close> answers \<open>toTimestamp = 6000\<close>.
\<close>

theorem getNewEvents_behind_example:
  "map (cachedToTimestamp (cacheStore exampleService)) (filter isIndexed (contracts exampleService))
     = [5000, 7000]
   \<and> getNewEvents exampleService (Finite 6000)
     = Inr \<lparr> hasNewLogs = False, toTimestamp = Finite 6000, logs = [], totalLogCount = None \<rparr>"
proof -
  have "num_le (mathMin (map (cachedToTimestamp (cacheStore exampleService))
                  (filter isIndexed (contracts exampleService)))) (Finite 6000)"
    unfolding example_cachedToTimestamps by (simp add: mathMin_def)
  then have "getNewEvents exampleService (Finite 6000) = Inr (noNewEvents (Finite 6000))"
    by (rule getNewEvents_behind)
  then show ?thesis using example_cachedToTimestamps by (simp add: noNewEvents_def)
qed

lemma example_getNewEvents:
  "getNewEvents exampleService (Finite 0)
     = Inr \<lparr> hasNewLogs = True, toTimestamp = Finite 5000,
             logs = [exampleLog ''0xA'' 10 ''0xb1'', exampleLog ''0xB'' 20 ''0xb1'',
                     exampleLog ''0xA'' 30 ''0xb1''],
             totalLogCount = Some 3 \<rparr>"
proof -
  have cs: "filter isIndexed (contracts exampleService)
              = [exampleContract ''Pair'' ''0xA'' 100, exampleContract ''Token'' ''0xB'' 60]"
    by (simp add: exampleService_def exampleContract_def)
  have n: "-1 \<notin> set (map (cachedToTimestamp (cacheStore exampleService))
                        (filter isIndexed (contracts exampleService)))"
    unfolding example_cachedToTimestamps by simp
  have m: "mathMin (map (cachedToTimestamp (cacheStore exampleService))
                     (filter isIndexed (contracts exampleService))) = Finite 5000"
    unfolding example_cachedToTimestamps by (simp add: mathMin_def)
  have a: "\<not> num_le (mathMin (map (cachedToTimestamp (cacheStore exampleService))
                     (filter isIndexed (contracts exampleService)))) (Finite 0)"
    unfolding m by simp
  have r: "contractRawLogs exampleService (Finite 0) (Finite 5000) (exampleContract ''Pair'' ''0xA'' 100)
             = Inr ([exampleLog ''0xA'' 30 ''0xb1'', exampleLog ''0xA'' 10 ''0xb1''],
                    [exampleLog ''0xA'' 30 ''0xb1'', exampleLog ''0xA'' 10 ''0xb1''])"
     "contractRawLogs exampleService (Finite 0) (Finite 5000) (exampleContract ''Token'' ''0xB'' 60)
             = Inr ([exampleLog ''0xB'' 20 ''0xb1''], [exampleLog ''0xB'' 20 ''0xb1''])"
    by (simp_all add: contractRawLogs_def example_eventSigHashes)
       (simp_all add: exampleService_def exampleCache_def exampleContract_def)
  show ?thesis
    unfolding getNewEvents_ahead [OF n a, unfolded m, unfolded cs]
    by (simp add: r) (simp add: exampleLog_def)
qed

theorem getNewEvents_sorted_witness:
  "\<exists>r. getNewEvents exampleService (Finite 0) = Inr r
       \<and> map logSortKey (logs r) = [10, 20, 30]
       \<and> sorted (map logSortKey (logs r))"
proof -
  let ?r = "\<lparr> hasNewLogs = True, toTimestamp = Finite 5000,
             logs = [exampleLog ''0xA'' 10 ''0xb1'', exampleLog ''0xB'' 20 ''0xb1'',
                     exampleLog ''0xA'' 30 ''0xb1''],
             totalLogCount = Some 3 \<rparr>"
  have a: "sorted (map logSortKey (logs ?r))"
    by (rule getNewEvents_sorted [OF example_getNewEvents, THEN conjunct1])
  have b: "map logSortKey (logs ?r) = [10, 20, 30]" by (simp add: exampleLog_def)
  show ?thesis
    by (rule exI [of _ ?r]) (intro conjI example_getNewEvents a b)
qed

theorem getNewEvents_deterministic_witness:
  "contracts exampleService
     = contracts (exampleService\<lparr> eventsHandledToTimestamp := Finite 4000, emitted := [TaskStarted],
                                  entityStore := 7 \<rparr>)
   \<and> getNewEvents exampleService (Finite 0)
     = getNewEvents (exampleService\<lparr> eventsHandledToTimestamp := Finite 4000, emitted := [TaskStarted],
                                     entityStore := 7 \<rparr>) (Finite 0)"
proof -
  let ?s' = "exampleService\<lparr> eventsHandledToTimestamp := Finite 4000, emitted := [TaskStarted],
                             entityStore := 7 \<rparr>"
  have "getNewEvents exampleService (Finite 0) = getNewEvents ?s' (Finite 0)"
    by (rule getNewEvents_deterministic) simp_all
  then show ?thesis by simp
qed

subsection \<open>Missing rows and skipped logs\<close>

text \<open>
  What \<open>buildLogEvent\<close> returns, case by case. A log whose contract, contract handlers or
  handler is missing is skipped: \<open>buildLogEvent\<close> returns \<open>undefined\<close> and throws nothing.
  An error thrown by \<open>decodeEventLog\<close> is thrown by \<open>buildLogEvent\<close>. For a log whose
  contract, handlers, decoded event and handler are found, \<open>buildLogEvent\<close> throws when the
  cache store has no block for the log's \<open>blockHash\<close>, and when it has no transaction for the
  log's \<open>transactionHash\<close>, and returns the handler and the event otherwise.
\<close>

lemma buildLogEvent_cases:
  fixes s :: "'st service"
  defines "decoded \<equiv> \<lambda>c lg. viemDecodeEventLog s
                       (filter (\<lambda>item. entryType item \<noteq> ''constructor'') (contractAbi c))
                       (logDataHex lg) (topic0 lg, topic1 lg, topic2 lg, topic3 lg)"
  shows
    "(find (\<lambda>c. contractAddress c = logAddress lg) (contracts s) = Some c
        \<and> contractHandlers hs (contractName c) = Some chs
        \<and> decoded c lg = Inr (Some (name, ps))
        \<and> map_of chs name = Some h \<longrightarrow>
          (getBlock (cacheStore s) (logBlockHash lg) = None \<longrightarrow>
             buildLogEvent s hs lg = Inl (Error (''Block with hash not found: '' @ logBlockHash lg)))
        \<and> (getBlock (cacheStore s) (logBlockHash lg) \<noteq> None
             \<and> getTransaction (cacheStore s) (logTransactionHash lg) = None \<longrightarrow>
             buildLogEvent s hs lg
               = Inl (Error (''Transaction with hash not found: '' @ logTransactionHash lg)))
        \<and> (getBlock (cacheStore s) (logBlockHash lg) = None
             \<or> getTransaction (cacheStore s) (logTransactionHash lg) = None \<longrightarrow>
             isl (buildLogEvent s hs lg))
        \<and> (\<forall>b t. getBlock (cacheStore s) (logBlockHash lg) = Some b
               \<and> getTransaction (cacheStore s) (logTransactionHash lg) = Some t \<longrightarrow>
               buildLogEvent s hs lg
                 = Inr (Some (h, \<lparr> hevName = name, hevParams = ps, hevLog = lg,
                                   hevBlock = b, hevTransaction = t \<rparr>))))
   \<and> (find (\<lambda>c. contractAddress c = logAddress lg) (contracts s) = None \<longrightarrow>
        buildLogEvent s hs lg = Inr None)
   \<and> (find (\<lambda>c. contractAddress c = logAddress lg) (contracts s) = Some c
        \<and> contractHandlers hs (contractName c) = None \<longrightarrow>
        buildLogEvent s hs lg = Inr None)
   \<and> (find (\<lambda>c. contractAddress c = logAddress lg) (contracts s) = Some c
        \<and> contractHandlers hs (contractName c) = Some chs
        \<and> decoded c lg = Inl e \<longrightarrow>
        buildLogEvent s hs lg = Inl e)
   \<and> (find (\<lambda>c. contractAddress c = logAddress lg) (contracts s) = Some c
        \<and> contractHandlers hs (contractName c) = Some chs
        \<and> decoded c lg = Inr (Some (name, ps))
        \<and> map_of chs name = None \<longrightarrow>
        buildLogEvent s hs lg = Inr None)"
  unfolding decoded_def
  by (auto simp: buildLogEvent_def split: option.splits)

lemma buildLogEvent_cases_example:
  "buildLogEvent exampleService exampleHandlers (exampleLog ''0xA'' 10 ''0xmissing'')
     = Inl (Error ''Block with hash not found: 0xmissing'')
   \<and> buildLogEvent exampleService exampleHandlers
       ((exampleLog ''0xA'' 10 ''0xb1'')\<lparr> logTransactionHash := ''0xnone'' \<rparr>)
     = Inl (Error ''Transaction with hash not found: 0xnone'')
   \<and> buildLogEvent exampleService exampleHandlers (exampleLog ''0xC'' 10 ''0xmissing'') = Inr None"
proof -
  let ?c = "exampleContract ''Pair'' ''0xA'' 100"
  let ?h = exampleSwapHandler
  note t = buildLogEvent_cases [where s = exampleService and hs = exampleHandlers
      and c = ?c and chs = "[(''Swap'', ?h)]" and name = "''Swap''" and ps = "[]" and h = ?h]
  have f: "find (\<lambda>c. contractAddress c = ''0xA'') (contracts exampleService) = Some ?c"
    by (simp add: exampleService_def exampleContract_def)
  have g: "find (\<lambda>c. contractAddress c = ''0xC'') (contracts exampleService) = None"
    by (simp add: exampleService_def exampleContract_def)
  have a: "buildLogEvent exampleService exampleHandlers (exampleLog ''0xA'' 10 ''0xmissing'')
     = Inl (Error (''Block with hash not found: '' @ ''0xmissing''))"
    using t [of "exampleLog ''0xA'' 10 ''0xmissing''", THEN conjunct1] f
    by (simp add: exampleLog_def)
       (simp add: exampleService_def exampleHandlers_def exampleContract_def exampleCache_def
          viem_decodeEventLog_def)
  have b: "buildLogEvent exampleService exampleHandlers
       ((exampleLog ''0xA'' 10 ''0xb1'')\<lparr> logTransactionHash := ''0xnone'' \<rparr>)
     = Inl (Error (''Transaction with hash not found: '' @ ''0xnone''))"
    using t [of "(exampleLog ''0xA'' 10 ''0xb1'')\<lparr> logTransactionHash := ''0xnone'' \<rparr>", THEN conjunct1] f
    by (simp add: exampleLog_def)
       (simp add: exampleService_def exampleHandlers_def exampleContract_def exampleCache_def
          viem_decodeEventLog_def)
  have c: "buildLogEvent exampleService exampleHandlers (exampleLog ''0xC'' 10 ''0xmissing'') = Inr None"
    using t [of "exampleLog ''0xC'' 10 ''0xmissing''", THEN conjunct2, THEN conjunct1] g
    by (simp add: exampleLog_def)
  from a b c show ?thesis by simp
qed

text \<open>
  With \<open>decodeEventLog\<close> of \<open>viem\<close>, a log of a configured contract that has handlers, whose
  \<open>topic0\<close> is the selector of no event of the contract's ABI, is not skipped: the library
  function throws, the branch \<open>if (!decodedLog)\<close> that would skip the log is not reached, and
  \<open>buildLogEvent\<close> throws \<open>AbiEventSignatureNotFoundError\<close>, whatever the cache store holds.
\<close>

lemma buildLogEvent_unknown_topic0:
  assumes "viemDecodeEventLog s = viem_decodeEventLog selector decodeArgs"
    and "find (\<lambda>c. contractAddress c = logAddress lg) (contracts s) = Some c"
    and "contractHandlers hs (contractName c) = Some chs"
    and "list_all (\<lambda>item. entryType item = ''event'' \<longrightarrow> selector item \<noteq> topic0 lg) (contractAbi c)"
  shows "buildLogEvent s hs lg = Inl (ExternalError ''AbiEventSignatureNotFoundError'')"
proof -
  let ?abi = "filter (\<lambda>item. entryType item \<noteq> ''constructor'') (contractAbi c)"
  have "find (\<lambda>item. entryType item = ''event'' \<and> selector item = topic0 lg) ?abi = None"
    using assms(4) by (auto simp: find_None_iff list_all_iff)
  then have "viemDecodeEventLog s ?abi (logDataHex lg) (topic0 lg, topic1 lg, topic2 lg, topic3 lg)
               = Inl (ExternalError ''AbiEventSignatureNotFoundError'')"
    by (simp add: assms(1) viem_decodeEventLog_def)
  then show ?thesis
    by (simp add: buildLogEvent_def assms(2,3))
qed

text \<open>
  Claim C9. The claim has a log whose ABI entry is missing skipped without error. The log
  below belongs to the configured contract \<open>Pair\<close> at \<open>0xA\<close>, which has a handler for
  \<open>Swap\<close>; its block \<open>0xb1\<close> and its transaction \<open>0xt1\<close> are in the cache store; its \<open>topic0\<close>
  is the selector of no event of the contract's ABI. \<open>buildLogEvent\<close> does not return
  \<open>undefined\<close> for it: it throws the \<open>AbiEventSignatureNotFoundError\<close> of \<open>decodeEventLog\<close>,
  and the worker's task for the log ends with that error.
\<close>

theorem buildLogEvent_unknown_event_throws:
  "buildLogEvent exampleService exampleHandlers
       ((exampleLog ''0xA'' 10 ''0xb1'')\<lparr> topic0 := ''0xother'' \<rparr>)
     = Inl (ExternalError ''AbiEventSignatureNotFoundError'')
   \<and> buildLogEvent exampleService exampleHandlers
       ((exampleLog ''0xA'' 10 ''0xb1'')\<lparr> topic0 := ''0xother'' \<rparr>) \<noteq> Inr None
   \<and> fst (eventHandlerWorker exampleHandlers
            \<lparr> contextContracts = [''Pair'', ''Token''], contextEntities = [] \<rparr>
            (LOG ((exampleLog ''0xA'' 10 ''0xb1'')\<lparr> topic0 := ''0xother'' \<rparr>)) exampleService)
       = Some (ExternalError ''AbiEventSignatureNotFoundError'')"
proof -
  let ?lg = "(exampleLog ''0xA'' 10 ''0xb1'')\<lparr> topic0 := ''0xother'' \<rparr>"
  have b: "buildLogEvent s exampleHandlers ?lg = Inl (ExternalError ''AbiEventSignatureNotFoundError'')"
    if "contracts s = contracts exampleService"
      and "viemDecodeEventLog s = viemDecodeEventLog exampleService" for s :: "nat service"
    by (rule buildLogEvent_unknown_topic0
          [where c = "exampleContract ''Pair'' ''0xA'' 100" and chs = "[(''Swap'', exampleSwapHandler)]"
             and selector = "\<lambda>item. if entryName item = ''Swap'' then ''0xswap'' else ''0x''"
             and decodeArgs = "\<lambda>item d rest. Inr []"])
       (simp_all add: that exampleService_def exampleContract_def exampleHandlers_def exampleLog_def)
  have w: "eventHandlerWorker exampleHandlers ctx (LOG ?lg) exampleService
             = (Some (ExternalError ''AbiEventSignatureNotFoundError''), emit TaskStarted exampleService)"
    for ctx
    by (simp add: eventHandlerWorker_def b emit_def)
  show ?thesis
    using b [of exampleService] by (simp add: w)
qed

subsection \<open>A cycle without new logs\<close>

definition exampleReady :: "nat service" where
  "exampleReady =
     resetEventQueue (Some exampleHandlers) (Some \<lparr> schemaEntities = [''SwapEntity''] \<rparr>) exampleService"

lemma resetEventQueue_frame:
  "contracts (resetEventQueue nh ns s) = contracts s"
  "cacheStore (resetEventQueue nh ns s) = cacheStore s"
  "encodeEventTopics (resetEventQueue nh ns s) = encodeEventTopics s"
  "viemDecodeEventLog (resetEventQueue nh ns s) = viemDecodeEventLog s"
  "isHandlerError (resetEventQueue nh ns s) = isHandlerError s"
  "handlerErrors (resetEventQueue nh ns s) = handlerErrors s"
  "isBackfillStarted (resetEventQueue nh ns s) = isBackfillStarted s"
  "entityStore (resetEventQueue nh ns s) = entityStore s"
  by (simp_all add: resetEventQueue_def Let_def emit_def queueAddTask_def
        split: option.splits)

text \<open>
  Claim C7. When some indexed source has no cached interval containing its \<open>startBlock\<close>,
  or the computed \<open>toTimestamp\<close> is at most the watermark, \<open>getNewEvents\<close> reports
  \<open>hasNewLogs = false\<close> and \<open>processEvents\<close> leaves the whole state as it was: no task
  is added, nothing is emitted, and \<open>eventsHandledToTimestamp\<close> is unchanged.
\<close>

theorem processEvents_no_new_logs:
  fixes s :: "'st service"
  defines "cs \<equiv> filter isIndexed (contracts s)"
  assumes "(\<exists>c \<in> set cs. \<forall>iv \<in> set (getCachedIntervals (cacheStore s) (contractAddress c)).
               \<not> coversStartBlock c iv)
         \<or> num_le (mathMin (map (cachedToTimestamp (cacheStore s)) cs)) (eventsHandledToTimestamp s)"
  shows "getNewEvents s (eventsHandledToTimestamp s) = Inr (noNewEvents (eventsHandledToTimestamp s))
       \<and> \<not> hasNewLogs (noNewEvents (eventsHandledToTimestamp s))
       \<and> processEvents lock s = (None, s)
       \<and> pendingTasks (snd (processEvents lock s)) = pendingTasks s
       \<and> emitted (snd (processEvents lock s)) = emitted s
       \<and> eventsHandledToTimestamp (snd (processEvents lock s)) = eventsHandledToTimestamp s"
proof -
  have g: "getNewEvents s (eventsHandledToTimestamp s) = Inr (noNewEvents (eventsHandledToTimestamp s))"
    using assms(2)
  proof
    assume "\<exists>c \<in> set cs. \<forall>iv \<in> set (getCachedIntervals (cacheStore s) (contractAddress c)).
               \<not> coversStartBlock c iv"
    then obtain c where "c \<in> set cs" and "cachedToTimestamp (cacheStore s) c = -1"
      using cachedToTimestamp_uncovered by blast
    then have "-1 \<in> set (map (cachedToTimestamp (cacheStore s)) cs)" by force
    then show ?thesis unfolding cs_def by (rule getNewEvents_uncached)
  next
    assume "num_le (mathMin (map (cachedToTimestamp (cacheStore s)) cs)) (eventsHandledToTimestamp s)"
    then show ?thesis unfolding cs_def by (rule getNewEvents_behind)
  qed
  have n: "\<not> hasNewLogs (noNewEvents (eventsHandledToTimestamp s))" by (simp add: noNewEvents_def)
  have c: "processEventsCycle s = (None, s)"
    by (simp add: processEventsCycle_def g cycleAfterFetch_def n split: option.splits)
  have p: "processEvents lock s = (None, s)"
    by (cases lock) (simp_all add: processEvents_def c)
  show ?thesis using g n p by simp
qed

theorem processEvents_no_new_logs_witness:
  "num_le (mathMin (map (cachedToTimestamp (cacheStore exampleReady))
                      (filter isIndexed (contracts exampleReady)))) (Finite 5000)
   \<and> queue (exampleReady\<lparr> eventsHandledToTimestamp := Finite 5000 \<rparr>) \<noteq> None
   \<and> processEvents Acquired (exampleReady\<lparr> eventsHandledToTimestamp := Finite 5000 \<rparr>)
     = (None, exampleReady\<lparr> eventsHandledToTimestamp := Finite 5000 \<rparr>)"
proof -
  let ?s = "exampleReady\<lparr> eventsHandledToTimestamp := Finite 5000 \<rparr>"
  have e: "map (cachedToTimestamp (cacheStore ?s)) (filter isIndexed (contracts ?s)) = [5000, 7000]"
    using example_cachedToTimestamps by (simp add: exampleReady_def resetEventQueue_frame)
  have e': "map (cachedToTimestamp (cacheStore exampleReady)) (filter isIndexed (contracts exampleReady)) = [5000, 7000]"
    using example_cachedToTimestamps by (simp add: exampleReady_def resetEventQueue_frame)
  have h: "num_le (mathMin (map (cachedToTimestamp (cacheStore ?s)) (filter isIndexed (contracts ?s))))
             (eventsHandledToTimestamp ?s)"
    unfolding e by (simp add: mathMin_def)
  have q: "queue ?s \<noteq> None"
    by (simp add: exampleReady_def resetEventQueue_def exampleService_def exampleHandlers_def
          Let_def emit_def queueAddTask_def)
  have "processEvents Acquired ?s = (None, ?s)"
    using processEvents_no_new_logs [of ?s Acquired, OF disjI2, OF h] by simp
  moreover have "num_le (mathMin (map (cachedToTimestamp (cacheStore exampleReady))
                      (filter isIndexed (contracts exampleReady)))) (Finite 5000)"
    unfolding e' by (simp add: mathMin_def)
  ultimately show ?thesis using q by simp
qed

subsection \<open>Draining the queue\<close>

text \<open>The state whose queue holds exactly the tasks \<open>ts\<close>: the way the theorems below
  name the tasks that are enqueued.\<close>

definition setTasks :: "task list \<Rightarrow> 'st service \<Rightarrow> 'st service" where
  "setTasks ts s = s\<lparr> queue := map_option (\<lambda>q. q\<lparr> tasks := ts \<rparr>) (queue s) \<rparr>"

lemma setTasks_simps [simp]:
  "setTasks ts (setTasks ts' s) = setTasks ts s"
  "handlerErrors (setTasks ts s) = handlerErrors s"
  "entityStore (setTasks ts s) = entityStore s"
  "emitted (setTasks ts s) = emitted s"
  "isHandlerError (setTasks ts s) = isHandlerError s"
  "getStackTraceAndCodeFrame (setTasks ts s) = getStackTraceAndCodeFrame s"
  "queue s = Some q \<Longrightarrow> queue (setTasks ts s) = Some (q\<lparr> tasks := ts \<rparr>)"
  "queue s = Some q \<Longrightarrow> pendingTasks (setTasks ts s) = ts"
  by (simp_all add: setTasks_def pendingTasks_def option.map_comp comp_def)


lemma drainQueue_Nil: "pendingTasks s = [] \<Longrightarrow> drainQueue s = (None, s)"
  by (simp add: drainQueue.simps [of s] pendingTasks_def split: option.splits list.splits)

lemma drainQueue_Cons:
  "queue s = Some q \<Longrightarrow> tasks q = t # ts \<Longrightarrow>
     drainQueue s =
       (case eventHandlerWorker (queueHandlers q) (queueContext q) t (setTasks ts s) of
          (Some e, s') \<Rightarrow> (Some e, s')
        | (None, s') \<Rightarrow> drainQueue s')"
  by (simp add: drainQueue.simps [of s] setTasks_def)

lemma buildLogEvent_frame:
  "contracts s' = contracts s \<Longrightarrow> cacheStore s' = cacheStore s \<Longrightarrow>
   viemDecodeEventLog s' = viemDecodeEventLog s \<Longrightarrow>
     buildLogEvent s' hs lg = buildLogEvent s hs lg"
  unfolding buildLogEvent_def by (elim ssubst) (rule refl)

lemma buildLogEvent_simps [simp]:
  "buildLogEvent (setTasks ts s) hs lg = buildLogEvent s hs lg"
  "buildLogEvent (emit e s) hs lg = buildLogEvent s hs lg"
  by (rule buildLogEvent_frame; simp add: setTasks_def emit_def)+


lemma emit_simps [simp]:
  "entityStore (emit e s) = entityStore s"
  "handlerErrors (emit e s) = handlerErrors s"
  "isHandlerError (emit e s) = isHandlerError s"
  "queue (emit e s) = queue s"
  "getStackTraceAndCodeFrame (emit e s) = getStackTraceAndCodeFrame s"
  "emitted (emit e s) = emitted s @ [e]"
  by (simp_all add: emit_def)

lemma handlerFailed_simps [simp]:
  "handlerErrors (handlerFailed err s) = handlerErrors s @ [err]"
  "isHandlerError (handlerFailed err s) = True"
  "entityStore (handlerFailed err s) = entityStore s"
  "emitted (handlerFailed err s) = emitted s"
  "handlerFailed err (setTasks ts s) = handlerFailed err s"
  by (simp_all add: handlerFailed_def submitHandlerError_def queueClear_def setTasks_def
        option.map_comp comp_def)






lemma worker_LOG_ok:
  "buildLogEvent s hs lg = Inr (Some (h, ev)) \<Longrightarrow> h ctx ev (entityStore s) = (None, st) \<Longrightarrow>
     eventHandlerWorker hs ctx (LOG lg) s
       = (None, emit (TaskCompleted (Some (blockTimestamp (hevBlock ev))))
                  ((emit TaskStarted s)\<lparr> currentLogEventBlockNumber := blockNumber (hevBlock ev),
                                          entityStore := st \<rparr>))"
  by (simp add: eventHandlerWorker_def)


lemma entityStore_update_simps [simp]:
  "handlerErrors (s\<lparr> entityStore := st \<rparr>) = handlerErrors s"
  "handlerErrors (s\<lparr> currentLogEventBlockNumber := n \<rparr>) = handlerErrors s"
  "queue (s\<lparr> entityStore := st \<rparr>) = queue s"
  "queue (s\<lparr> currentLogEventBlockNumber := n \<rparr>) = queue s"
  by simp_all








lemma drainQueue_step_ok:
  "queue s = Some q \<Longrightarrow> tasks q = LOG lg # ts \<Longrightarrow>
   buildLogEvent s (queueHandlers q) lg = Inr (Some (h, ev)) \<Longrightarrow>
   h (queueContext q) ev (entityStore s) = (None, st) \<Longrightarrow>
     drainQueue s = drainQueue
       (emit (TaskCompleted (Some (blockTimestamp (hevBlock ev))))
          ((emit TaskStarted (setTasks ts s))\<lparr> currentLogEventBlockNumber := blockNumber (hevBlock ev),
                                                 entityStore := st \<rparr>))"
  using worker_LOG_ok [of "setTasks ts s" "queueHandlers q" lg h ev "queueContext q" st]
  by (simp add: drainQueue_Cons)


lemma resetEventQueue_bound:
  assumes "(case nh of Some h \<Rightarrow> Some h | None \<Rightarrow> handlers s) = Some hs"
    and "(case ns of Some c \<Rightarrow> Some c | None \<Rightarrow> schema s) = Some sc"
  shows "resetEventQueue nh ns s =
     s\<lparr> handlers := Some hs, schema := Some sc,
        cancelledMutexes := cancelledMutexes s @ [eventProcessingMutex s],
        eventProcessingMutex := Suc (eventProcessingMutex s),
        eventsHandledToTimestamp := Finite 0,
        queue := Some \<lparr> tasks = (case setupHandler hs of None \<Rightarrow> [] | Some h \<Rightarrow> [SETUP]),
                        isPaused = True, queueHandlers = hs, queueContext = buildContext s sc \<rparr>,
        emitted := emitted s @ EventQueueReset #
                     (case setupHandler hs of None \<Rightarrow> []
                      | Some h \<Rightarrow> [EventsAdded 1 1 (Finite 0) (Finite 0)]) \<rparr>"
proof -
  have h: "handlers (case ns of None \<Rightarrow> (case nh of None \<Rightarrow> s | Some h \<Rightarrow> s\<lparr> handlers := Some h \<rparr>)
                     | Some sc \<Rightarrow> (case nh of None \<Rightarrow> s | Some h \<Rightarrow> s\<lparr> handlers := Some h \<rparr>)\<lparr> schema := Some sc \<rparr>)
             = Some hs"
    using assms(1) by (cases nh; cases ns; simp)
  have c: "schema (case ns of None \<Rightarrow> (case nh of None \<Rightarrow> s | Some h \<Rightarrow> s\<lparr> handlers := Some h \<rparr>)
                     | Some sc \<Rightarrow> (case nh of None \<Rightarrow> s | Some h \<Rightarrow> s\<lparr> handlers := Some h \<rparr>)\<lparr> schema := Some sc \<rparr>)
             = Some sc"
    using assms(2) by (cases nh; cases ns; simp)
  show ?thesis
    unfolding resetEventQueue_def Let_def h c
    using assms
    by (cases nh; cases ns; cases "setupHandler hs";
        simp add: emit_def queueAddTask_def createEventQueue_def buildContext_def)
qed

text \<open>The state of the example after \<open>resetEventQueue\<close> with the example handlers, and the
  event built for an example log.\<close>

definition exampleContext :: handlerContext where
  "exampleContext = \<lparr> contextContracts = [''Pair'', ''Token''], contextEntities = [''SwapEntity''] \<rparr>"

definition exampleQueue :: "nat queue" where
  "exampleQueue = \<lparr> tasks = [SETUP], isPaused = True, queueHandlers = exampleHandlers,
                     queueContext = exampleContext \<rparr>"

definition exampleEvent :: "ponderLog \<Rightarrow> handlerEvent" where
  "exampleEvent lg =
     \<lparr> hevName = ''Swap'', hevParams = [], hevLog = lg,
       hevBlock = \<lparr> blockHash = ''0xb1'', blockNumber = 150, blockTimestamp = 4000 \<rparr>,
       hevTransaction = \<lparr> transactionHash = ''0xt1'' \<rparr> \<rparr>"

lemma exampleReady_eq:
  "exampleReady =
     exampleService\<lparr> handlers := Some exampleHandlers,
        schema := Some \<lparr> schemaEntities = [''SwapEntity''] \<rparr>,
        cancelledMutexes := [0], eventProcessingMutex := 1,
        eventsHandledToTimestamp := Finite 0,
        queue := Some exampleQueue,
        emitted := [EventQueueReset, EventsAdded 1 1 (Finite 0) (Finite 0)] \<rparr>"
proof -
  have b: "buildContext exampleService \<lparr> schemaEntities = [''SwapEntity''] \<rparr> = exampleContext"
    by (simp add: buildContext_def exampleContext_def exampleService_def exampleContract_def)
  have e: "emitted exampleService = []" "cancelledMutexes exampleService = []"
    "eventProcessingMutex exampleService = 0"
    by (simp_all add: exampleService_def)
  have h: "setupHandler exampleHandlers = Some (\<lambda>ctx st. (None, st + 100))"
    by (simp add: exampleHandlers_def)
  show ?thesis
    unfolding exampleReady_def
    by (subst resetEventQueue_bound [where hs = exampleHandlers
          and sc = "\<lparr> schemaEntities = [''SwapEntity''] \<rparr>"])
       (simp_all add: b e h exampleQueue_def)
qed

lemma exampleReady_fields:
  "queue exampleReady = Some exampleQueue"
  "entityStore exampleReady = 0"
  "handlerErrors exampleReady = []"
  "emitted exampleReady = [EventQueueReset, EventsAdded 1 1 (Finite 0) (Finite 0)]"
  "contracts exampleReady = contracts exampleService"
  "cacheStore exampleReady = cacheStore exampleService"
  "viemDecodeEventLog exampleReady = viemDecodeEventLog exampleService"
  "isBackfillStarted exampleReady"
  "\<not> isHandlerError exampleReady"
  "eventsHandledToTimestamp exampleReady = Finite 0"
  "getStackTraceAndCodeFrame exampleReady = (\<lambda>e. (''stack'', ''frame''))"
  unfolding exampleReady_eq by (simp_all add: exampleService_def)



subsection \<open>Reset\<close>

lemma pendingTasks_addLogTasks:
  "queue s = Some q \<Longrightarrow> pendingTasks (addLogTasks ls s) = tasks q @ map LOG ls"
proof (induction ls arbitrary: s q)
  case Nil
  then show ?case by (simp add: addLogTasks_def pendingTasks_def)
next
  case (Cons lg ls)
  have "queue (queueAddTask (LOG lg) s) = Some (q\<lparr> tasks := tasks q @ [LOG lg] \<rparr>)"
    using Cons.prems by (simp add: queueAddTask_def)
  from Cons.IH [OF this] show ?case by (simp add: addLogTasks_def)
qed

lemma processEvents_Cancelled: "processEvents Cancelled s = (None, s)"
  by (simp add: processEvents_def)

text \<open>
  Claim C5, amended. When handlers and schema are bound (given now or before),
  \<open>resetEventQueue\<close> cancels the mutex and replaces it, so that a cycle that was waiting
  for the lock ends without emitting anything and without an error; it sets
  \<open>eventsHandledToTimestamp\<close> to 0, binds the new handlers and schema, builds a new paused
  queue whose worker uses them, emits \<open>eventQueueReset\<close>, and enqueues a single \<open>SETUP\<close>
  task exactly when a \<open>setup\<close> handler exists, so that every log task added later comes
  after it; and the cycle that runs next on this state calls \<open>getNewEvents\<close> with
  \<open>fromTimestamp = 0\<close>.
\<close>

theorem resetEventQueue_restarts:
  fixes s :: "'st service"
  assumes "(case newHandlers of Some h \<Rightarrow> Some h | None \<Rightarrow> handlers s) = Some hs"
    and "(case newSchema of Some c \<Rightarrow> Some c | None \<Rightarrow> schema s) = Some sc"
  defines "s' \<equiv> resetEventQueue newHandlers newSchema s"
  defines "seed \<equiv> (case setupHandler hs of None \<Rightarrow> [] | Some h \<Rightarrow> [SETUP])"
  shows "eventProcessingMutex s \<in> set (cancelledMutexes s')
       \<and> eventProcessingMutex s' \<noteq> eventProcessingMutex s
       \<and> (\<forall>x :: 'st service. processEvents Cancelled x = (None, x))
       \<and> eventsHandledToTimestamp s' = Finite 0
       \<and> handlers s' = Some hs \<and> schema s' = Some sc
       \<and> queue s' = Some \<lparr> tasks = seed, isPaused = True, queueHandlers = hs,
                            queueContext = buildContext s sc \<rparr>
       \<and> emitted s' = emitted s @ EventQueueReset #
                         (case setupHandler hs of None \<Rightarrow> []
                          | Some h \<Rightarrow> [EventsAdded 1 1 (Finite 0) (Finite 0)])
       \<and> (\<forall>ls. pendingTasks (addLogTasks ls s') = seed @ map LOG ls)
       \<and> processEventsCycle s'
           = (case getNewEvents s' (Finite 0) of
                Inl e \<Rightarrow> (Some e, s')
              | Inr r \<Rightarrow> cycleAfterFetch s' r)"
proof -
  note b = resetEventQueue_bound [OF assms(1,2), folded s'_def seed_def]
  have q: "queue s' = Some \<lparr> tasks = seed, isPaused = True, queueHandlers = hs,
                            queueContext = buildContext s sc \<rparr>"
    unfolding b by simp
  have w: "eventsHandledToTimestamp s' = Finite 0" unfolding b by simp
  have "\<forall>ls. pendingTasks (addLogTasks ls s') = seed @ map LOG ls"
    using pendingTasks_addLogTasks [OF q] by simp
  moreover have "processEventsCycle s'
           = (case getNewEvents s' (Finite 0) of
                Inl e \<Rightarrow> (Some e, s')
              | Inr r \<Rightarrow> cycleAfterFetch s' r)"
    by (simp add: processEventsCycle_def q w)
  moreover have "eventProcessingMutex s \<in> set (cancelledMutexes s')"
    "eventProcessingMutex s' \<noteq> eventProcessingMutex s"
    "handlers s' = Some hs" "schema s' = Some sc"
    "emitted s' = emitted s @ EventQueueReset #
                         (case setupHandler hs of None \<Rightarrow> []
                          | Some h \<Rightarrow> [EventsAdded 1 1 (Finite 0) (Finite 0)])"
    unfolding b by simp_all
  ultimately show ?thesis using q w processEvents_Cancelled by blast
qed

theorem resetEventQueue_restarts_witness:
  "eventsHandledToTimestamp exampleReady = Finite 0
   \<and> queue exampleReady = Some exampleQueue
   \<and> handlers exampleReady = Some exampleHandlers
   \<and> emitted exampleReady = [EventQueueReset, EventsAdded 1 1 (Finite 0) (Finite 0)]
   \<and> cancelledMutexes exampleReady = [0]
   \<and> pendingTasks (addLogTasks [exampleLog ''0xA'' 10 ''0xb1''] exampleReady)
       = [SETUP, LOG (exampleLog ''0xA'' 10 ''0xb1'')]
   \<and> processEvents Cancelled exampleReady = (None, exampleReady)"
proof -
  let ?sc = "\<lparr> schemaEntities = [''SwapEntity''] \<rparr>"
  have h: "(case Some exampleHandlers of Some h \<Rightarrow> Some h | None \<Rightarrow> handlers exampleService)
             = Some exampleHandlers"
    and c: "(case Some ?sc of Some c \<Rightarrow> Some c | None \<Rightarrow> schema exampleService) = Some ?sc"
    by simp_all
  have u: "setupHandler exampleHandlers = Some (\<lambda>ctx st. (None, st + 100))"
    by (simp add: exampleHandlers_def)
  have b: "buildContext exampleService ?sc = exampleContext"
    by (simp add: buildContext_def exampleContext_def exampleService_def exampleContract_def)
  have e: "emitted exampleService = []" "eventProcessingMutex exampleService = 0"
    by (simp_all add: exampleService_def)
  note t = resetEventQueue_restarts [OF h c, folded exampleReady_def, unfolded u b e]
  from t have "eventsHandledToTimestamp exampleReady = Finite 0" by blast
  moreover from t have "queue exampleReady = Some exampleQueue" by (simp add: exampleQueue_def)
  moreover from t have "handlers exampleReady = Some exampleHandlers" by blast
  moreover from t have "emitted exampleReady = [EventQueueReset, EventsAdded 1 1 (Finite 0) (Finite 0)]"
    by simp
  moreover have "cancelledMutexes exampleReady = [0]"
    unfolding exampleReady_eq by (simp add: exampleService_def)
  moreover from t have "pendingTasks (addLogTasks [exampleLog ''0xA'' 10 ''0xb1''] exampleReady)
       = [SETUP, LOG (exampleLog ''0xA'' 10 ''0xb1'')]" by simp
  moreover from t have "processEvents Cancelled exampleReady = (None, exampleReady)" by blast
  ultimately show ?thesis by blast
qed

text \<open>Handlers without a \<open>setup\<close> handler that never throw, and the result of
  \<open>getNewEvents\<close> on the example.\<close>

definition exampleQuietHandlers :: "nat handlers" where
  "exampleQuietHandlers =
     \<lparr> setupHandler = None,
       contractHandlers = (\<lambda>n.
         if n = ''Pair'' \<or> n = ''Token'' then Some [(''Swap'', \<lambda>ctx ev st. (None, st + 1))]
         else None) \<rparr>"

definition exampleFetched :: newEvents where
  "exampleFetched =
     \<lparr> hasNewLogs = True, toTimestamp = Finite 5000,
       logs = [exampleLog ''0xA'' 10 ''0xb1'', exampleLog ''0xB'' 20 ''0xb1'',
               exampleLog ''0xA'' 30 ''0xb1''],
       totalLogCount = Some 3 \<rparr>"

lemma exampleReady_getNewEvents:
  "getNewEvents exampleReady (eventsHandledToTimestamp exampleReady) = Inr exampleFetched"
proof -
  have cs: "filter isIndexed (contracts exampleReady)
              = [exampleContract ''Pair'' ''0xA'' 100, exampleContract ''Token'' ''0xB'' 60]"
    by (simp add: exampleReady_fields exampleService_def exampleContract_def)
  have ts: "map (cachedToTimestamp (cacheStore exampleReady)) (filter isIndexed (contracts exampleReady))
              = [5000, 7000]"
    using example_cachedToTimestamps by (simp add: exampleReady_fields)
  have n: "-1 \<notin> set (map (cachedToTimestamp (cacheStore exampleReady))
                        (filter isIndexed (contracts exampleReady)))"
    unfolding ts by simp
  have m: "mathMin (map (cachedToTimestamp (cacheStore exampleReady))
                     (filter isIndexed (contracts exampleReady))) = Finite 5000"
    unfolding ts by (simp add: mathMin_def)
  have a: "\<not> num_le (mathMin (map (cachedToTimestamp (cacheStore exampleReady))
                     (filter isIndexed (contracts exampleReady)))) (Finite 0)"
    unfolding m by simp
  have g: "getLogs (cacheStore exampleReady) ''0xA'' x y z
             = [exampleLog ''0xA'' 30 ''0xb1'', exampleLog ''0xA'' 10 ''0xb1'']"
    "getLogs (cacheStore exampleReady) ''0xB'' x y z = [exampleLog ''0xB'' 20 ''0xb1'']" for x y z
    by (simp_all add: exampleReady_fields exampleService_def exampleCache_def)
  have sg: "\<not> isl (eventSigHashes exampleReady (exampleContract n a b))" for n a b
    unfolding exampleReady_eq
    by (simp add: eventSigHashes_def exampleService_def exampleContract_def exampleHandlers_def
          nthOpt0_def)
  have r: "contractRawLogs exampleReady (Finite 0) (Finite 5000) (exampleContract ''Pair'' ''0xA'' 100)
             = Inr ([exampleLog ''0xA'' 30 ''0xb1'', exampleLog ''0xA'' 10 ''0xb1''],
                    [exampleLog ''0xA'' 30 ''0xb1'', exampleLog ''0xA'' 10 ''0xb1''])"
     "contractRawLogs exampleReady (Finite 0) (Finite 5000) (exampleContract ''Token'' ''0xB'' 60)
             = Inr ([exampleLog ''0xB'' 20 ''0xb1''], [exampleLog ''0xB'' 20 ''0xb1''])"
    using sg [of "''Pair''" "''0xA''" 100] sg [of "''Token''" "''0xB''" 60]
    by (auto simp: contractRawLogs_def g exampleContract_def split: sum.splits)
  show ?thesis
    unfolding exampleReady_fields(10) getNewEvents_ahead [OF n a, unfolded m, unfolded cs]
    by (simp add: r exampleFetched_def) (simp add: exampleLog_def)
qed

lemma resource_frame [simp]:
  "contracts (emit e s) = contracts s"
  "cacheStore (emit e s) = cacheStore s"
  "viemDecodeEventLog (emit e s) = viemDecodeEventLog s"
  "contracts (setTasks ts s) = contracts s"
  "cacheStore (setTasks ts s) = cacheStore s"
  "viemDecodeEventLog (setTasks ts s) = viemDecodeEventLog s"
  by (simp_all add: emit_def setTasks_def)

text \<open>The example state after a reset that arrives while a cycle, holding the lock, awaits
  \<open>getNewEvents\<close>.\<close>

definition exampleResetMidCycle :: "nat service" where
  "exampleResetMidCycle = resetEventQueue (Some exampleQuietHandlers) None exampleReady"

lemma exampleResetMidCycle_eq:
  "exampleResetMidCycle =
     exampleReady\<lparr> handlers := Some exampleQuietHandlers,
        cancelledMutexes := [0, 1], eventProcessingMutex := 2,
        eventsHandledToTimestamp := Finite 0,
        queue := Some \<lparr> tasks = [], isPaused = True, queueHandlers = exampleQuietHandlers,
                        queueContext = exampleContext \<rparr>,
        emitted := [EventQueueReset, EventsAdded 1 1 (Finite 0) (Finite 0), EventQueueReset] \<rparr>"
proof -
  let ?sc = "\<lparr> schemaEntities = [''SwapEntity''] \<rparr>"
  have sc: "schema exampleReady = Some ?sc" unfolding exampleReady_eq by simp
  have b: "buildContext exampleReady ?sc = exampleContext"
    by (simp add: buildContext_def exampleContext_def exampleReady_fields exampleService_def
          exampleContract_def)
  have e: "cancelledMutexes exampleReady = [0]" "eventProcessingMutex exampleReady = 1"
    unfolding exampleReady_eq by simp_all
  have u: "setupHandler exampleQuietHandlers = None" by (simp add: exampleQuietHandlers_def)
  show ?thesis
    unfolding exampleResetMidCycle_def
    by (subst resetEventQueue_bound [where hs = exampleQuietHandlers and sc = ?sc])
       (simp_all add: sc b e u exampleReady_fields)
qed

lemma quiet_step:
  assumes "queue s = Some \<lparr> tasks = LOG (exampleLog a k ''0xb1'') # ts, isPaused = p,
                            queueHandlers = exampleQuietHandlers, queueContext = c \<rparr>"
    and "contracts s = contracts exampleService" and "cacheStore s = cacheStore exampleService"
    and "viemDecodeEventLog s = viemDecodeEventLog exampleService"
    and "entityStore s = n" and "a = ''0xA'' \<or> a = ''0xB''" and "m = n + 1"
  shows "drainQueue s = drainQueue
           (emit (TaskCompleted (Some 4000))
              ((emit TaskStarted (setTasks ts s))\<lparr> currentLogEventBlockNumber := 150,
                                                     entityStore := m \<rparr>))"
proof -
  let ?lg = "exampleLog a k ''0xb1''"
  let ?q = "\<lparr> tasks = LOG ?lg # ts, isPaused = p,
              queueHandlers = exampleQuietHandlers, queueContext = c \<rparr>"
  have "buildLogEvent s exampleQuietHandlers ?lg = buildLogEvent exampleService exampleQuietHandlers ?lg"
    by (rule buildLogEvent_frame) (simp_all add: assms)
  also have "\<dots> = Inr (Some (\<lambda>ctx ev st. (None, st + 1), exampleEvent ?lg))"
    using assms(6)
    by (auto simp: buildLogEvent_def viem_decodeEventLog_def exampleService_def exampleContract_def
          exampleQuietHandlers_def exampleCache_def exampleLog_def exampleEvent_def)
  finally have b: "buildLogEvent s (queueHandlers ?q) ?lg
                     = Inr (Some (\<lambda>ctx ev st. (None, st + 1), exampleEvent ?lg))"
    by simp
  have t: "tasks ?q = LOG ?lg # ts" by simp
  show ?thesis
    using drainQueue_step_ok [OF assms(1) t b, of m] assms(5,7)
    by (simp add: exampleEvent_def)
qed

text \<open>
  Claim C5 as stated has a reset end the cycle in flight without \<open>eventsProcessed\<close>, and
  the next cycle start from 0. \<open>cancel()\<close> rejects only the calls that wait for the lock.
  A cycle that holds the lock and awaits \<open>getNewEvents\<close> when the reset arrives goes on
  when the promise resolves: it adds its logs to the new queue, drains it, emits
  \<open>eventsProcessed\<close> and overwrites the watermark 0 with its own \<open>toTimestamp\<close>, here
  5000.
\<close>

theorem reset_during_fetch_example:
  "getNewEvents exampleReady (eventsHandledToTimestamp exampleReady) = Inr exampleFetched
   \<and> eventsHandledToTimestamp exampleResetMidCycle = Finite 0
   \<and> fst (cycleAfterFetch exampleResetMidCycle exampleFetched) = None
   \<and> emitted (snd (cycleAfterFetch exampleResetMidCycle exampleFetched))
       = [EventQueueReset, EventsAdded 1 1 (Finite 0) (Finite 0), EventQueueReset,
          EventsAdded 3 3 (Finite 0) (Finite 5000),
          TaskStarted, TaskCompleted (Some 4000),
          TaskStarted, TaskCompleted (Some 4000),
          TaskStarted, TaskCompleted (Some 4000),
          EventsProcessed 3 (Finite 5000)]
   \<and> eventsHandledToTimestamp (snd (cycleAfterFetch exampleResetMidCycle exampleFetched))
       = Finite 5000"
proof -
  let ?l10 = "exampleLog ''0xA'' 10 ''0xb1''" and ?l20 = "exampleLog ''0xB'' 20 ''0xb1''"
  let ?l30 = "exampleLog ''0xA'' 30 ''0xb1''"
  let ?q = "\<lambda>ts p. \<lparr> tasks = ts, isPaused = p, queueHandlers = exampleQuietHandlers,
                        queueContext = exampleContext \<rparr>"
  let ?s3 = "queueSetPaused False
               (emit (EventsAdded 3 3 (Finite 0) (Finite 5000))
                  (addLogTasks [?l10, ?l20, ?l30] exampleResetMidCycle))"
  let ?t1 = "emit (TaskCompleted (Some 4000))
               ((emit TaskStarted (setTasks [LOG ?l20, LOG ?l30] ?s3))
                  \<lparr> currentLogEventBlockNumber := 150, entityStore := 1 \<rparr>)"
  let ?t2 = "emit (TaskCompleted (Some 4000))
               ((emit TaskStarted (setTasks [LOG ?l30] ?t1))
                  \<lparr> currentLogEventBlockNumber := 150, entityStore := 2 \<rparr>)"
  let ?t3 = "emit (TaskCompleted (Some 4000))
               ((emit TaskStarted (setTasks [] ?t2))
                  \<lparr> currentLogEventBlockNumber := 150, entityStore := 3 \<rparr>)"
  note f = exampleReady_fields
  have q: "queue exampleResetMidCycle = Some (?q [] True)" unfolding exampleResetMidCycle_eq by simp
  have w: "eventsHandledToTimestamp exampleResetMidCycle = Finite 0"
    unfolding exampleResetMidCycle_eq by simp
  have fr: "contracts exampleResetMidCycle = contracts exampleService"
    "cacheStore exampleResetMidCycle = cacheStore exampleService"
    "viemDecodeEventLog exampleResetMidCycle = viemDecodeEventLog exampleService"
    "entityStore exampleResetMidCycle = 0"
    "emitted exampleResetMidCycle = [EventQueueReset, EventsAdded 1 1 (Finite 0) (Finite 0), EventQueueReset]"
    unfolding exampleResetMidCycle_eq by (simp_all add: f)
  have q3: "queue ?s3 = Some (?q [LOG ?l10, LOG ?l20, LOG ?l30] False)"
    by (simp add: addLogTasks_def queueAddTask_def queueSetPaused_def emit_def q)
  have fr3: "contracts ?s3 = contracts exampleService" "cacheStore ?s3 = cacheStore exampleService"
    "viemDecodeEventLog ?s3 = viemDecodeEventLog exampleService" "entityStore ?s3 = 0"
    by (simp_all add: addLogTasks_def queueAddTask_def queueSetPaused_def emit_def fr)
  have e3: "emitted ?s3 = [EventQueueReset, EventsAdded 1 1 (Finite 0) (Finite 0), EventQueueReset,
                    EventsAdded 3 3 (Finite 0) (Finite 5000)]"
    by (simp add: addLogTasks_def queueAddTask_def queueSetPaused_def emit_def fr)
  have d1: "drainQueue ?s3 = drainQueue ?t1"
    by (rule quiet_step [OF q3 fr3]) simp_all
  have q1: "queue ?t1 = Some (?q [LOG ?l20, LOG ?l30] False)"
    by (simp add: q3)
  have fr1: "contracts ?t1 = contracts exampleService" "cacheStore ?t1 = cacheStore exampleService"
    "viemDecodeEventLog ?t1 = viemDecodeEventLog exampleService" "entityStore ?t1 = 1"
    by (simp_all add: fr3)
  have d2: "drainQueue ?t1 = drainQueue ?t2"
    by (rule quiet_step [OF q1 fr1]) simp_all
  have q2: "queue ?t2 = Some (?q [LOG ?l30] False)"
    by (simp add: q3)
  have fr2: "contracts ?t2 = contracts exampleService" "cacheStore ?t2 = cacheStore exampleService"
    "viemDecodeEventLog ?t2 = viemDecodeEventLog exampleService" "entityStore ?t2 = 2"
    by (simp_all add: fr3)
  have d3: "drainQueue ?t2 = drainQueue ?t3"
    by (rule quiet_step [OF q2 fr2]) simp_all
  have q3': "queue ?t3 = Some (?q [] False)"
    by (simp add: q3)
  have d4: "drainQueue ?t3 = (None, ?t3)"
  proof (rule drainQueue_Nil)
    show "pendingTasks ?t3 = []" unfolding pendingTasks_def q3' by simp
  qed
  have d: "drainQueue ?s3 = (None, ?t3)" using d1 d2 d3 d4 by (simp only:)
  have l: "logs exampleFetched = [?l10, ?l20, ?l30]" "hasNewLogs exampleFetched"
    "toTimestamp exampleFetched = Finite 5000" "totalLogCount exampleFetched = Some 3"
    by (simp_all add: exampleFetched_def)
  have len: "length [?l10, ?l20, ?l30] = 3" by simp
  have wa: "eventsHandledToTimestamp (addLogTasks [?l10, ?l20, ?l30] exampleResetMidCycle) = Finite 0"
    by (simp add: addLogTasks_def queueAddTask_def w)
  have c: "cycleAfterFetch exampleResetMidCycle exampleFetched
             = (None, emit (EventsProcessed 3 (Finite 5000))
                        ((queueSetPaused True ?t3)\<lparr> eventsHandledToTimestamp := Finite 5000 \<rparr>))"
    unfolding cycleAfterFetch_def Let_def l q len wa
    by (simp only: l(2) not_True_eq_False if_False option.case d prod.case)
  have e: "emitted ?t3 = [EventQueueReset, EventsAdded 1 1 (Finite 0) (Finite 0), EventQueueReset,
          EventsAdded 3 3 (Finite 0) (Finite 5000),
          TaskStarted, TaskCompleted (Some 4000),
          TaskStarted, TaskCompleted (Some 4000),
          TaskStarted, TaskCompleted (Some 4000)]"
    by (simp add: e3)
  show ?thesis
    unfolding c using exampleReady_getNewEvents w e
    by (simp add: queueSetPaused_def emit_def)
qed

end
